theory Spec2Isabelle
  imports Main
begin

section \<open>JavaScript strings\<close>

text \<open>
  A JavaScript string is a sequence of UTF-16 code units; \<open>length\<close>, \<open>substring\<close>,
  \<open>startsWith\<close> and the regular expressions of the scraper (none has the \<open>u\<close> flag)
  all work on code units. A code unit is modelled by its number.
\<close>

type_synonym cu = nat
type_synonym jstring = "cu list"

definition js :: "string \<Rightarrow> jstring" where
  "js s = map of_char s"

text \<open>\<open>String.prototype.startsWith\<close> and \<open>String.prototype.includes\<close>.\<close>

definition startsWith :: "jstring \<Rightarrow> jstring \<Rightarrow> bool" where
  "startsWith s p = (take (length p) s = p)"

fun str_includes :: "jstring \<Rightarrow> jstring \<Rightarrow> bool" where
  "str_includes [] p = (p = [])"
| "str_includes (c # cs) p = (startsWith (c # cs) p \<or> str_includes cs p)"

text \<open>
  White space and line terminators of ECMAScript: what \<open>trim()\<close> strips and what
  \<open>\s\<close> matches.
\<close>

definition is_space :: "cu \<Rightarrow> bool" where
  "is_space c = (c \<in> {9, 10, 11, 12, 13, 32, 160, 5760, 8232, 8233, 8239, 8287, 12288, 65279}
     \<or> (8192 \<le> c \<and> c \<le> 8202))"

definition trim :: "jstring \<Rightarrow> jstring" where
  "trim s = rev (dropWhile is_space (rev (dropWhile is_space s)))"

text \<open>\<open>s.substring(0, n)\<close> for \<open>0 \<le> n\<close>.\<close>

definition substring0 :: "jstring \<Rightarrow> nat \<Rightarrow> jstring" where
  "substring0 s n = take n s"

section \<open>Regular expressions\<close>

text \<open>
  The fragment of ECMAScript regular expressions that the scraper uses: single code
  units from a class, greedy \<open>*\<close> and \<open>+\<close> and lazy \<open>*?\<close> on a class, \<open>?\<close>,
  alternation, capture groups (never nested, never under a quantifier), the word
  boundary \<open>\b\<close> and the anchor \<open>^\<close> (no pattern has the \<open>m\<close> flag).
\<close>

datatype re =
    Eps
  | Chr "cu \<Rightarrow> bool"
  | Seq re re
  | Alt re re
  | Star "cu \<Rightarrow> bool"
  | Plus "cu \<Rightarrow> bool"
  | LazyStar "cu \<Rightarrow> bool"
  | Opt re
  | Grp re
  | WordB
  | Bol

text \<open>Character classes.\<close>

definition any_cu :: "cu \<Rightarrow> bool" where
  "any_cu c = True"

definition none_of :: "jstring \<Rightarrow> cu \<Rightarrow> bool" where
  "none_of xs c = (c \<notin> set xs)"

definition one_of :: "jstring \<Rightarrow> cu \<Rightarrow> bool" where
  "one_of xs c = (c \<in> set xs)"

definition in_range :: "cu \<Rightarrow> cu \<Rightarrow> cu \<Rightarrow> bool" where
  "in_range lo hi c = (lo \<le> c \<and> c \<le> hi)"

definition is_cu :: "cu \<Rightarrow> cu \<Rightarrow> bool" where
  "is_cu a c = (c = a)"

text \<open>
  A pattern character under the \<open>i\<close> flag (without \<open>u\<close>): both sides are
  canonicalised with \<open>toUpperCase\<close>, and a code unit from 128 on is never mapped
  below 128, so an ASCII letter matches exactly its two cases and any other ASCII
  character only itself.
\<close>

definition is_cu_i :: "cu \<Rightarrow> cu \<Rightarrow> bool" where
  "is_cu_i a c = (c = a \<or> (65 \<le> a \<and> a \<le> 90 \<and> c = a + 32) \<or> (97 \<le> a \<and> a \<le> 122 \<and> c + 32 = a))"

text \<open>\<open>\w\<close>: the word characters that \<open>\b\<close> looks at.\<close>

definition is_word :: "cu \<Rightarrow> bool" where
  "is_word c = ((48 \<le> c \<and> c \<le> 57) \<or> (65 \<le> c \<and> c \<le> 90) \<or> c = 95 \<or> (97 \<le> c \<and> c \<le> 122))"

fun seqs :: "re list \<Rightarrow> re" where
  "seqs [] = Eps"
| "seqs (r # rs) = Seq r (seqs rs)"

fun alts :: "re list \<Rightarrow> re" where
  "alts [] = Eps"
| "alts [r] = r"
| "alts (r # rs) = Alt r (alts rs)"

definition lit :: "string \<Rightarrow> re" where
  "lit s = seqs (map (\<lambda>a. Chr (is_cu a)) (js s))"

definition lit_i :: "string \<Rightarrow> re" where
  "lit_i s = seqs (map (\<lambda>a. Chr (is_cu_i a)) (js s))"

subsection \<open>Backtracking matcher\<close>

text \<open>
  A matcher state is the code unit before the current position (for \<open>\b\<close> and
  \<open>^\<close>; \<open>None\<close> at the start of the input), the rest
  of the input and the captures made so far, in the order of their groups. \<open>run r s\<close>
  lists the states in which a match of \<open>r\<close> from \<open>s\<close> can end, in the order in which
  the backtracking matcher of ECMAScript tries them: its first element is the match
  that the matcher returns when nothing follows \<open>r\<close>.
\<close>

type_synonym mstate = "cu option \<times> jstring \<times> jstring list"

fun one :: "(cu \<Rightarrow> bool) \<Rightarrow> mstate \<Rightarrow> mstate list" where
  "one P (p, [], g) = []"
| "one P (p, c # cs, g) = (if P c then [(Some c, cs, g)] else [])"

fun star_greedy :: "(cu \<Rightarrow> bool) \<Rightarrow> mstate \<Rightarrow> mstate list" where
  "star_greedy P (p, [], g) = [(p, [], g)]"
| "star_greedy P (p, c # cs, g) =
     (if P c then star_greedy P (Some c, cs, g) else []) @ [(p, c # cs, g)]"

fun star_lazy :: "(cu \<Rightarrow> bool) \<Rightarrow> mstate \<Rightarrow> mstate list" where
  "star_lazy P (p, [], g) = [(p, [], g)]"
| "star_lazy P (p, c # cs, g) =
     (p, c # cs, g) # (if P c then star_lazy P (Some c, cs, g) else [])"

definition word_boundary :: "cu option \<Rightarrow> jstring \<Rightarrow> bool" where
  "word_boundary p cs =
     ((case p of None \<Rightarrow> False | Some a \<Rightarrow> is_word a)
      \<noteq> (case cs of [] \<Rightarrow> False | c # _ \<Rightarrow> is_word c))"

fun run :: "re \<Rightarrow> mstate \<Rightarrow> mstate list" where
  "run Eps s = [s]"
| "run (Chr P) s = one P s"
| "run (Seq a b) s = concat (map (run b) (run a s))"
| "run (Alt a b) s = run a s @ run b s"
| "run (Star P) s = star_greedy P s"
| "run (Plus P) s = concat (map (star_greedy P) (one P s))"
| "run (LazyStar P) s = star_lazy P s"
| "run (Opt a) s = run a s @ [s]"
| "run (Grp a) (p, cs, g) =
     map (\<lambda>(p', cs', g'). (p', cs', g' @ [take (length cs - length cs') cs])) (run a (p, cs, g))"
| "run WordB (p, cs, g) = (if word_boundary p cs then [(p, cs, g)] else [])"
| "run Bol (p, cs, g) = (if p = None then [(p, cs, g)] else [])"

text \<open>
  A match at the current position: the matched text and the captures of the first
  state of \<open>run\<close>.
\<close>

definition match_at :: "re \<Rightarrow> cu option \<Rightarrow> jstring \<Rightarrow> (jstring \<times> jstring list) option" where
  "match_at r p cs =
     (case run r (p, cs, []) of
        [] \<Rightarrow> None
      | (p', cs', g) # _ \<Rightarrow> Some (take (length cs - length cs') cs, g))"

text \<open>
  \<open>RegExp.prototype.exec\<close> without the \<open>g\<close> flag: the match at the leftmost position
  that has one.
\<close>

fun exec :: "re \<Rightarrow> cu option \<Rightarrow> jstring \<Rightarrow> (jstring \<times> jstring list) option" where
  "exec r p [] = match_at r p []"
| "exec r p (c # cs) =
     (case match_at r p (c # cs) of
        Some m \<Rightarrow> Some m
      | None \<Rightarrow> exec r (Some c) cs)"

text \<open>\<open>str.match(r)\<close> for \<open>r\<close> without the \<open>g\<close> flag; \<open>None\<close> is \<open>null\<close>.\<close>

definition str_match :: "jstring \<Rightarrow> re \<Rightarrow> (jstring \<times> jstring list) option" where
  "str_match s r = exec r None s"

text \<open>
  \<open>m[1]\<close> of a match. In every pattern below group 1 takes part in every match, so
  the capture list is never empty there.
\<close>

fun group1 :: "jstring \<times> jstring list \<Rightarrow> jstring" where
  "group1 (m, []) = []"
| "group1 (m, x # xs) = x"

text \<open>
  \<open>str.match(r)\<close> for \<open>r\<close> with the \<open>g\<close> flag: the matched texts, left to right, each
  search starting where the previous match ended (one further on after an empty
  match). The counter \<open>k\<close> is the number of code units still inside the previous
  match. The empty list stands for \<open>null\<close>, which every caller replaces by \<open>[]\<close>.
\<close>

fun match_all :: "re \<Rightarrow> nat \<Rightarrow> cu option \<Rightarrow> jstring \<Rightarrow> jstring list" where
  "match_all r k p [] =
     (if k = 0 then (case match_at r p [] of None \<Rightarrow> [] | Some (m, g) \<Rightarrow> [m]) else [])"
| "match_all r k p (c # cs) =
     (if 0 < k then match_all r (k - 1) (Some c) cs
      else case match_at r p (c # cs) of
             None \<Rightarrow> match_all r 0 (Some c) cs
           | Some (m, g) \<Rightarrow> m # match_all r (length m - 1) (Some c) cs)"

definition str_match_g :: "jstring \<Rightarrow> re \<Rightarrow> jstring list" where
  "str_match_g s r = match_all r 0 None s"

text \<open>
  \<open>str.replace(r, rep)\<close> for \<open>r\<close> with the \<open>g\<close> flag and a replacement text without
  \<open>$\<close>.
\<close>

fun replace_all :: "re \<Rightarrow> jstring \<Rightarrow> nat \<Rightarrow> cu option \<Rightarrow> jstring \<Rightarrow> jstring" where
  "replace_all r rep k p [] =
     (if k = 0 then (case match_at r p [] of None \<Rightarrow> [] | Some (m, g) \<Rightarrow> rep) else [])"
| "replace_all r rep k p (c # cs) =
     (if 0 < k then replace_all r rep (k - 1) (Some c) cs
      else case match_at r p (c # cs) of
             None \<Rightarrow> c # replace_all r rep 0 (Some c) cs
           | Some (m, g) \<Rightarrow>
               rep @ (if m = [] then [c] else []) @ replace_all r rep (length m - 1) (Some c) cs)"

definition str_replace_g :: "jstring \<Rightarrow> re \<Rightarrow> jstring \<Rightarrow> jstring" where
  "str_replace_g s r rep = replace_all r rep 0 None s"


section \<open>The platform's URL parser\<close>

text \<open>
  \<open>URL\<close> is a class of the runtime, not of the repository. Of a parsed URL the scraper
  reads \<open>protocol\<close> (the scheme with its colon), \<open>host\<close> and the serialisation
  (\<open>toString()\<close>, the same as \<open>href\<close>). The two constructors are parameters of the
  model: \<open>new_URL s\<close> is \<open>new URL(s)\<close> and \<open>new_URL_base s b\<close> is \<open>new URL(s, b)\<close>;
  each returns the parsed URL or the \<open>TypeError\<close> that the constructor throws.
\<close>

datatype exn = Error jstring | TypeError jstring

fun message :: "exn \<Rightarrow> jstring" where
  "message (Error m) = m"
| "message (TypeError m) = m"

record URL =
  protocol :: jstring
  host :: jstring
  href :: jstring

record platform =
  new_URL :: "jstring \<Rightarrow> exn + URL"
  new_URL_base :: "jstring \<Rightarrow> jstring \<Rightarrow> exn + URL"

section \<open>The extractor: \<open>parseHtml\<close>\<close>

record link =
  text' :: jstring
  url :: jstring

record ScrapedData =
  title :: jstring
  content :: jstring
  headings :: "jstring list"
  links :: "link list"

definition quotes :: jstring where
  "quotes = [34, 39]"

text \<open>\<^verbatim>\<open>/<title[^>]*>([^<]+)<\/title>/i\<close>\<close>

definition title_re :: re where
  "title_re = seqs [lit_i ''<title'', Star (none_of (js ''>'')), lit_i ''>'',
     Grp (Plus (none_of (js ''<''))), lit_i ''</title>'']"

text \<open>\<^verbatim>\<open>/<script[^>]*>[\s\S]*?<\/script>/gi\<close>, and the same for \<open>style\<close> and \<open>noscript\<close>\<close>

definition script_re :: re where
  "script_re = seqs [lit_i ''<script'', Star (none_of (js ''>'')), lit_i ''>'',
     LazyStar any_cu, lit_i ''</script>'']"

definition style_re :: re where
  "style_re = seqs [lit_i ''<style'', Star (none_of (js ''>'')), lit_i ''>'',
     LazyStar any_cu, lit_i ''</style>'']"

definition noscript_re :: re where
  "noscript_re = seqs [lit_i ''<noscript'', Star (none_of (js ''>'')), lit_i ''>'',
     LazyStar any_cu, lit_i ''</noscript>'']"

text \<open>\<^verbatim>\<open>/<[^>]+>/g\<close>\<close>

definition tag_re :: re where
  "tag_re = seqs [lit ''<'', Plus (none_of (js ''>'')), lit ''>'']"

text \<open>\<^verbatim>\<open>/\s+/g\<close>\<close>

definition spaces_re :: re where
  "spaces_re = Plus is_space"

text \<open>\<^verbatim>\<open>/\b(home|about|contact|privacy|terms|cookies?|login|register|sign up|sign in|menu|navigation|footer|header)\b/gi\<close>\<close>

definition nav_re :: re where
  "nav_re = seqs [WordB,
     Grp (alts [lit_i ''home'', lit_i ''about'', lit_i ''contact'', lit_i ''privacy'',
       lit_i ''terms'', Seq (lit_i ''cookie'') (Opt (lit_i ''s'')), lit_i ''login'',
       lit_i ''register'', lit_i ''sign up'', lit_i ''sign in'', lit_i ''menu'',
       lit_i ''navigation'', lit_i ''footer'', lit_i ''header'']),
     WordB]"

text \<open>\<^verbatim>\<open>/<h[1-6][^>]*>([^<]+)<\/h[1-6]>/gi\<close>; 49 and 54 are the digits 1 and 6\<close>

definition heading_re :: re where
  "heading_re = seqs [lit_i ''<h'', Chr (in_range 49 54), Star (none_of (js ''>'')), lit_i ''>'',
     Grp (Plus (none_of (js ''<''))), lit_i ''</h'', Chr (in_range 49 54), lit_i ''>'']"

text \<open>\<^verbatim>\<open>/>([^<]+)</\<close>\<close>

definition heading_text_re :: re where
  "heading_text_re = seqs [lit ''>'', Grp (Plus (none_of (js ''<''))), lit ''<'']"

text \<open>\<^verbatim>\<open>/<a[^>]+href=["']([^"']+)["'][^>]*>([^<]*)<\/a>/gi\<close>\<close>

definition link_re :: re where
  "link_re = seqs [lit_i ''<a'', Plus (none_of (js ''>'')), lit_i ''href='', Chr (one_of quotes),
     Grp (Plus (none_of quotes)), Chr (one_of quotes), Star (none_of (js ''>'')), lit_i ''>'',
     Grp (Star (none_of (js ''<''))), lit_i ''</a>'']"

text \<open>\<^verbatim>\<open>/href=["']([^"']+)["']/i\<close>\<close>

definition href_re :: re where
  "href_re = seqs [lit_i ''href='', Chr (one_of quotes), Grp (Plus (none_of quotes)),
     Chr (one_of quotes)]"

text \<open>\<^verbatim>\<open>/>([^<]*)</\<close>\<close>

definition link_text_re :: re where
  "link_text_re = seqs [lit ''>'', Grp (Star (none_of (js ''<''))), lit ''<'']"

text \<open>The callback of \<open>headingMatches.map\<close>.\<close>

definition heading_of :: "jstring \<Rightarrow> jstring" where
  "heading_of m =
     (case str_match m heading_text_re of
        Some textMatch \<Rightarrow> trim (group1 textMatch)
      | None \<Rightarrow> [])"

text \<open>
  The callback of \<open>linkMatches.map\<close>: \<open>Inr None\<close> is \<open>null\<close>, \<open>Inl\<close> an exception
  that leaves the callback (\<open>new URL(baseUrl)\<close> is outside the \<open>try\<close>).
\<close>

definition link_of :: "platform \<Rightarrow> jstring \<Rightarrow> jstring \<Rightarrow> exn + link option" where
  "link_of W baseUrl m =
     (case str_match m href_re of
        None \<Rightarrow> Inr None
      | Some hrefMatch \<Rightarrow>
          (let href0 = group1 hrefMatch;
               text0 = (case str_match m link_text_re of
                          Some textMatch \<Rightarrow> trim (group1 textMatch)
                        | None \<Rightarrow> href0);
               mk = (\<lambda>h. Inr (Some \<lparr>text' = (if text0 \<noteq> [] then text0 else h), url = h\<rparr>))
           in if startsWith href0 (js ''/'') then
                (case new_URL W baseUrl of
                   Inl e \<Rightarrow> Inl e
                 | Inr base \<Rightarrow> mk (protocol base @ js ''//'' @ host base @ href0))
              else if startsWith href0 (js ''./'') \<or> \<not> str_includes href0 (js ''://'') then
                (case new_URL_base W href0 baseUrl of
                   Inl e \<Rightarrow> Inr None
                 | Inr u \<Rightarrow> mk (href u))
              else mk href0))"

text \<open>\<open>Array.prototype.map\<close> with a callback that may throw: the first exception ends it.\<close>

fun map_exn :: "('a \<Rightarrow> exn + 'b) \<Rightarrow> 'a list \<Rightarrow> exn + 'b list" where
  "map_exn f [] = Inr []"
| "map_exn f (x # xs) =
     (case f x of
        Inl e \<Rightarrow> Inl e
      | Inr y \<Rightarrow> (case map_exn f xs of Inl e \<Rightarrow> Inl e | Inr ys \<Rightarrow> Inr (y # ys)))"

text \<open>The predicate of \<open>.filter\<close> on the links.\<close>

fun link_ok :: "link option \<Rightarrow> bool" where
  "link_ok None = False"
| "link_ok (Some l) =
     (length (text' l) > 0 \<and> length (url l) > 0
      \<and> \<not> startsWith (url l) (js ''javascript:'') \<and> \<not> startsWith (url l) (js ''mailto:''))"

definition parseHtml :: "platform \<Rightarrow> jstring \<Rightarrow> jstring \<Rightarrow> exn + ScrapedData" where
  "parseHtml W html baseUrl =
     (let title0 = (case str_match html title_re of
                      Some titleMatch \<Rightarrow> trim (group1 titleMatch)
                    | None \<Rightarrow> js ''Untitled'');
          c1 = str_replace_g html script_re [];
          c2 = str_replace_g c1 style_re [];
          c3 = str_replace_g c2 noscript_re [];
          c4 = str_replace_g c3 tag_re (js '' '');
          c5 = trim (str_replace_g c4 spaces_re (js '' ''));
          c6 = str_replace_g c5 nav_re [];
          content0 = (if length c6 > 15000 then substring0 c6 15000 else c6);
          headingMatches = str_match_g html heading_re;
          headings0 = take 20 (filter (\<lambda>heading. length heading > 0) (map heading_of headingMatches));
          linkMatches = str_match_g html link_re
      in case map_exn (link_of W baseUrl) linkMatches of
           Inl e \<Rightarrow> Inl e
         | Inr ls \<Rightarrow>
             Inr \<lparr>title = title0, content = content0, headings = headings0,
                  links = take 50 (map the (filter link_ok ls))\<rparr>)"


section \<open>The enrichment call: \<open>generateAISummary\<close>\<close>

text \<open>Decimal digits of a number, as a template literal prints a status code.\<close>

fun decimal :: "nat \<Rightarrow> jstring" where
  "decimal n = (if n < 10 then [48 + n] else decimal (n div 10) @ [48 + n mod 10])"

declare decimal.simps [simp del]

text \<open>
  The world outside the function: the identity service, the fetched site, the
  configuration, the summarisation service and the record store. Each is a function
  from what the handler sends to what it gets back.
\<close>

record user =
  user_id :: jstring

record response =
  status :: nat
  body_text :: "exn + jstring"

text \<open>
  \<open>response.ok\<close>; \<open>body_text\<close> is what \<open>response.text()\<close> gives, the text or the
  exception of a body that cannot be read.
\<close>

definition ok :: "response \<Rightarrow> bool" where
  "ok r = (200 \<le> status r \<and> status r \<le> 299)"

text \<open>
  The reply of the summarisation service: its status and, for the value of
  \<^verbatim>\<open>data.choices[0]?.message?.content\<close> after \<open>response.json()\<close>, either the
  exception that reading it throws, or \<open>None\<close> (undefined) or the text.
\<close>

record ai_response =
  ai_status :: nat
  ai_content :: "exn + jstring option"

record row =
  row_user_id :: jstring
  row_url :: jstring
  row_title :: jstring
  row_content :: jstring
  row_headings :: "jstring list"
  row_links :: "link list"
  ai_summary :: "jstring option"
  analysis_status :: jstring

record saved_row = row +
  saved_id :: jstring
  created_at :: jstring

record world =
  URLs :: platform
  getUser :: "jstring \<Rightarrow> user option"
  fetch :: "jstring \<Rightarrow> exn + response"
  OPENAI_API_KEY :: "jstring option"
  openai :: "jstring \<Rightarrow> jstring \<Rightarrow> exn + ai_response"
  insert_row :: "row \<Rightarrow> jstring + saved_row"

text \<open>What the handler did to the outside, in order.\<close>

datatype effect = Fetched jstring | AskedOpenAI jstring | Inserted row

definition prompt_of :: "jstring \<Rightarrow> jstring \<Rightarrow> jstring" where
  "prompt_of title0 truncatedContent =
     js ''Please provide a comprehensive yet concise summary of the following webpage content. Focus on the key points, main topics, and important takeaways. Make it informative and well-structured. Limit to 250 words maximum.''
     @ [10, 10] @ js ''Title: '' @ title0
     @ [10, 10] @ js ''Content: '' @ truncatedContent
     @ [10, 10] @ js ''Please provide a summary that captures the essence and main points of this content:''"

definition generateAISummary :: "world \<Rightarrow> jstring \<Rightarrow> jstring \<Rightarrow> effect list \<times> (exn + jstring)" where
  "generateAISummary E content0 title0 =
     (case OPENAI_API_KEY E of
        None \<Rightarrow> ([], Inl (Error (js ''OpenAI API key not configured'')))
      | Some openaiApiKey \<Rightarrow>
          if openaiApiKey = [] then ([], Inl (Error (js ''OpenAI API key not configured'')))
          else
            (let maxContentLength = 12000;
                 truncatedContent =
                   (if length content0 > maxContentLength
                    then substring0 content0 maxContentLength @ js ''...''
                    else content0);
                 prompt = prompt_of title0 truncatedContent
             in case openai E openaiApiKey prompt of
                  Inl e \<Rightarrow> ([AskedOpenAI prompt], Inl e)
                | Inr r \<Rightarrow>
                    if \<not> (200 \<le> ai_status r \<and> ai_status r \<le> 299)
                    then ([AskedOpenAI prompt],
                          Inl (Error (js ''OpenAI API error: '' @ decimal (ai_status r))))
                    else
                      (case ai_content r of
                         Inl e \<Rightarrow> ([AskedOpenAI prompt], Inl e)
                       | Inr None \<Rightarrow>
                           ([AskedOpenAI prompt], Inr (js ''Summary could not be generated.''))
                       | Inr (Some c) \<Rightarrow>
                           ([AskedOpenAI prompt],
                            Inr (if trim c \<noteq> [] then trim c
                                 else js ''Summary could not be generated.'')))))"

section \<open>The request handler\<close>

text \<open>
  The request: its method, its \<open>Authorization\<close> header (an absent and an empty header
  are both falsy), and what \<open>req.json()\<close> gives: an exception, or a body whose \<open>url\<close>
  is absent or a string.
\<close>

datatype json_body = BadJson exn | Body "jstring option"

record request =
  req_method :: jstring
  authorization :: "jstring option"
  body :: json_body

text \<open>The \<open>data\<close> of a successful reply.\<close>

record result_data =
  r_id :: jstring
  r_url :: jstring
  r_title :: jstring
  r_content :: jstring
  r_headings :: "jstring list"
  r_links :: "link list"
  r_aiSummary :: "jstring option"
  r_analysisStatus :: jstring
  r_timestamp :: jstring

text \<open>
  The three replies: the answer to a CORS preflight, \<^verbatim>\<open>{success: true, data}\<close>, and
  \<^verbatim>\<open>{success: false, error}\<close> with status 400.
\<close>

datatype reply = Preflight | Success result_data | Failure jstring

text \<open>\<open>s.replace(pat, rep)\<close> with a text pattern: the first occurrence only.\<close>

fun replace_first :: "jstring \<Rightarrow> jstring \<Rightarrow> jstring \<Rightarrow> jstring" where
  "replace_first [] pat rep = (if pat = [] then rep else [])"
| "replace_first (c # cs) pat rep =
     (if startsWith (c # cs) pat then rep @ drop (length pat) (c # cs)
      else c # replace_first cs pat rep)"

text \<open>
  The enrichment step of the handler: the summary, the status and what was sent out.
\<close>

definition enrich :: "world \<Rightarrow> ScrapedData \<Rightarrow> effect list \<times> jstring \<times> jstring" where
  "enrich E scrapedData =
     (if (case OPENAI_API_KEY E of None \<Rightarrow> False | Some k \<Rightarrow> k \<noteq> [])
         \<and> trim (content scrapedData) \<noteq> []
      then (case generateAISummary E (content scrapedData) (title scrapedData) of
              (tr, Inr aiSummary) \<Rightarrow> (tr, aiSummary, js ''completed'')
            | (tr, Inl e) \<Rightarrow> (tr, [], js ''failed''))
      else ([], [], js ''pending''))"

text \<open>The body of the \<open>try\<close> block: the effects, and the data or the exception.\<close>

definition pipeline :: "world \<Rightarrow> request \<Rightarrow> effect list \<times> (exn + result_data)" where
  "pipeline E req =
     (case authorization req of
        None \<Rightarrow> ([], Inl (Error (js ''No authorization header'')))
      | Some authHeader \<Rightarrow>
     if authHeader = [] then ([], Inl (Error (js ''No authorization header'')))
     else
     (case getUser E (replace_first authHeader (js ''Bearer '') []) of
        None \<Rightarrow> ([], Inl (Error (js ''Invalid authentication'')))
      | Some user0 \<Rightarrow>
     (case body req of
        BadJson e \<Rightarrow> ([], Inl e)
      | Body None \<Rightarrow> ([], Inl (Error (js ''URL is required'')))
      | Body (Some url0) \<Rightarrow>
     if url0 = [] then ([], Inl (Error (js ''URL is required'')))
     else
     (case new_URL (URLs E) url0 of
        Inl e \<Rightarrow> ([], Inl (Error (js ''Invalid URL format'')))
      | Inr targetUrl \<Rightarrow>
     (case fetch E (href targetUrl) of
        Inl e \<Rightarrow> ([Fetched (href targetUrl)], Inl e)
      | Inr resp \<Rightarrow>
     if \<not> ok resp
     then ([Fetched (href targetUrl)],
           Inl (Error (js ''Failed to fetch webpage: '' @ decimal (status resp))))
     else
     (case body_text resp of
        Inl e \<Rightarrow> ([Fetched (href targetUrl)], Inl e)
      | Inr html \<Rightarrow>
     (case parseHtml (URLs E) html (href targetUrl) of
        Inl e \<Rightarrow> ([Fetched (href targetUrl)], Inl e)
      | Inr scrapedData \<Rightarrow>
     (case enrich E scrapedData of (tr, aiSummary, analysisStatus) \<Rightarrow>
     (let r = \<lparr>row_user_id = user_id user0, row_url = href targetUrl,
                row_title = title scrapedData, row_content = content scrapedData,
                row_headings = headings scrapedData, row_links = links scrapedData,
                ai_summary = (if aiSummary \<noteq> [] then Some aiSummary else None),
                analysis_status = analysisStatus\<rparr>
      in case insert_row E r of
           Inl dbError \<Rightarrow>
             ([Fetched (href targetUrl)] @ tr @ [Inserted r],
              Inl (Error (js ''Database error: '' @ dbError)))
         | Inr savedResult \<Rightarrow>
             ([Fetched (href targetUrl)] @ tr @ [Inserted r],
              Inr \<lparr>r_id = saved_id savedResult, r_url = row_url savedResult,
                   r_title = row_title savedResult, r_content = row_content savedResult,
                   r_headings = row_headings savedResult, r_links = row_links savedResult,
                   r_aiSummary = ai_summary savedResult,
                   r_analysisStatus = analysis_status savedResult,
                   r_timestamp = created_at savedResult\<rparr>))))))))))"

text \<open>The handler given to \<open>Deno.serve\<close>.\<close>

definition serve :: "world \<Rightarrow> request \<Rightarrow> effect list \<times> reply" where
  "serve E req =
     (if req_method req = js ''OPTIONS'' then ([], Preflight)
      else case pipeline E req of
             (tr, Inr d) \<Rightarrow> (tr, Success d)
           | (tr, Inl e) \<Rightarrow>
               (tr, Failure (if message e \<noteq> [] then message e
                             else js ''An unexpected error occurred'')))"

section \<open>The form: \<open>normalizeUrl\<close>, \<open>validateUrl\<close>, \<open>handleSubmit\<close>\<close>

text \<open>\<^verbatim>\<open>/^https?:\/\//i\<close>\<close>

definition scheme_re :: re where
  "scheme_re = seqs [Bol, lit_i ''http'', Opt (lit_i ''s''), lit_i ''://'']"

definition normalizeUrl :: "jstring \<Rightarrow> jstring" where
  "normalizeUrl inputUrl =
     (let normalizedUrl = trim inputUrl
      in if str_match normalizedUrl scheme_re = None then js ''https://'' @ normalizedUrl
         else normalizedUrl)"

definition validateUrl :: "platform \<Rightarrow> jstring \<Rightarrow> bool" where
  "validateUrl W url0 = (case new_URL W url0 of Inr u \<Rightarrow> True | Inl e \<Rightarrow> False)"

text \<open>
  \<open>handleSubmit\<close> up to its request to the scraping function: the form either shows
  an error and sends nothing, or posts the normalised URL. \<open>session\<close> says whether
  \<open>getSession\<close> finds a session.
\<close>

datatype submit = ShowError jstring | Post jstring

definition handleSubmit :: "platform \<Rightarrow> bool \<Rightarrow> jstring \<Rightarrow> submit" where
  "handleSubmit W session url0 =
     (if trim url0 = [] then ShowError (js ''Please enter a URL'')
      else let normalizedUrl = normalizeUrl url0
           in if \<not> validateUrl W normalizedUrl
              then ShowError (js ''Please enter a valid URL (e.g., google.com, www.example.com, or https://example.com)'')
              else if \<not> session then ShowError (js ''Not authenticated'')
              else Post normalizedUrl)"


section \<open>What a pattern matches\<close>

text \<open>
  A description of the matches of a pattern that does not say how they are found:
  \<open>den r p w rest caps\<close> holds when \<open>r\<close> can match the text \<open>w\<close>, with \<open>p\<close> the code
  unit before it and \<open>rest\<close> the input behind it, and then adds the captures \<open>caps\<close>.
  \<open>lastp p w\<close> is the code unit before the position behind \<open>w\<close>.
\<close>

fun lastp :: "cu option \<Rightarrow> jstring \<Rightarrow> cu option" where
  "lastp p [] = p"
| "lastp p (c # cs) = lastp (Some c) cs"

fun den :: "re \<Rightarrow> cu option \<Rightarrow> jstring \<Rightarrow> jstring \<Rightarrow> jstring list \<Rightarrow> bool" where
  "den Eps p w rest caps = (w = [] \<and> caps = [])"
| "den (Chr P) p w rest caps = (\<exists>c. w = [c] \<and> P c \<and> caps = [])"
| "den (Seq a b) p w rest caps =
     (\<exists>u v c1 c2. w = u @ v \<and> caps = c1 @ c2 \<and> den a p u (v @ rest) c1 \<and> den b (lastp p u) v rest c2)"
| "den (Alt a b) p w rest caps = (den a p w rest caps \<or> den b p w rest caps)"
| "den (Star P) p w rest caps = ((\<forall>c \<in> set w. P c) \<and> caps = [])"
| "den (Plus P) p w rest caps = (w \<noteq> [] \<and> (\<forall>c \<in> set w. P c) \<and> caps = [])"
| "den (LazyStar P) p w rest caps = ((\<forall>c \<in> set w. P c) \<and> caps = [])"
| "den (Opt a) p w rest caps = (den a p w rest caps \<or> (w = [] \<and> caps = []))"
| "den (Grp a) p w rest caps = (\<exists>c0. den a p w rest c0 \<and> caps = c0 @ [w])"
| "den WordB p w rest caps = (w = [] \<and> caps = [] \<and> word_boundary p rest)"
| "den Bol p w rest caps = (w = [] \<and> caps = [] \<and> p = None)"

text \<open>The states in which a match of \<open>r\<close> can end, by that description.\<close>

definition ends :: "re \<Rightarrow> cu option \<Rightarrow> jstring \<Rightarrow> jstring list \<Rightarrow> mstate set" where
  "ends r p cs g = {s. \<exists>w cs' caps. s = (lastp p w, cs', g @ caps) \<and> cs = w @ cs' \<and> den r p w cs' caps}"


section \<open>Elements as the patterns see them\<close>

text \<open>\<open>eq_i s w\<close>: the text \<open>w\<close> is \<open>s\<close> up to the case of ASCII letters.\<close>

definition eq_i :: "string \<Rightarrow> jstring \<Rightarrow> bool" where
  "eq_i s w = list_all2 is_cu_i (js s) w"

text \<open>
  A title element with inner text \<open>inner\<close>: \<^verbatim>\<open><title\<close>, anything without \<^verbatim>\<open>>\<close> (62),
  \<^verbatim>\<open>>\<close>, a non-empty inner text without \<^verbatim>\<open><\<close> (60), \<^verbatim>\<open></title>\<close>. \<open>title_at html k inner\<close>
  says that such an element starts at index \<open>k\<close> of \<open>html\<close>.
\<close>

definition title_element :: "jstring \<Rightarrow> jstring \<Rightarrow> bool" where
  "title_element w inner \<longleftrightarrow>
     (\<exists>t a c. w = t @ a @ js ''>'' @ inner @ c \<and> eq_i ''<title'' t \<and> 62 \<notin> set a
        \<and> inner \<noteq> [] \<and> 60 \<notin> set inner \<and> eq_i ''</title>'' c)"

definition title_at :: "jstring \<Rightarrow> nat \<Rightarrow> jstring \<Rightarrow> bool" where
  "title_at html k inner \<longleftrightarrow>
     k \<le> length html \<and> (\<exists>w rest. drop k html = w @ rest \<and> title_element w inner)"

text \<open>\<open>occurs_i s w\<close>: the text \<open>s\<close> occurs in \<open>w\<close>, up to the case of ASCII letters.\<close>

definition occurs_i :: "string \<Rightarrow> jstring \<Rightarrow> bool" where
  "occurs_i s w \<longleftrightarrow> (\<exists>u x v. w = u @ x @ v \<and> eq_i s x)"





section \<open>Absolute URLs and recognised schemes\<close>

text \<open>
  An absolute URL starts with a scheme and a colon (RFC 3986, section 3.1, and the
  scheme states of the URL Standard's parser, which accepts a text without a base URL
  only then): an ASCII letter, then letters, digits, \<open>+\<close> (43), \<open>-\<close> (45) or \<open>.\<close> (46),
  then \<open>:\<close> (58).
\<close>

definition is_alpha :: "cu \<Rightarrow> bool" where
  "is_alpha c = ((65 \<le> c \<and> c \<le> 90) \<or> (97 \<le> c \<and> c \<le> 122))"

fun scheme_tail :: "jstring \<Rightarrow> bool" where
  "scheme_tail [] = False"
| "scheme_tail (c # cs) =
     (c = 58 \<or> ((is_alpha c \<or> (48 \<le> c \<and> c \<le> 57) \<or> c = 43 \<or> c = 45 \<or> c = 46) \<and> scheme_tail cs))"

fun has_scheme :: "jstring \<Rightarrow> bool" where
  "has_scheme [] = False"
| "has_scheme (c # cs) = (is_alpha c \<and> scheme_tail cs)"

text \<open>
  The schemes that the form recognises: the text starts with \<^verbatim>\<open>http://\<close> or
  \<^verbatim>\<open>https://\<close>, in any case of the letters.
\<close>

definition has_http_scheme :: "jstring \<Rightarrow> bool" where
  "has_http_scheme n \<longleftrightarrow> (\<exists>u rest. n = u @ rest \<and> (eq_i ''http://'' u \<or> eq_i ''https://'' u))"

section \<open>Example inputs\<close>

text \<open>
  The scenario document
  \<^verbatim>\<open><html><body><h1>A</h1><a href="/x">Go</a></body></html>\<close> (34 is the double
  quote).
\<close>

definition scenario_doc :: jstring where
  "scenario_doc = js ''<html><body><h1>A</h1><a href='' @ [34] @ js ''/x'' @ [34]
     @ js ''>Go</a></body></html>''"

text \<open>
  A URL parser for the examples: it parses the base URL of the scenario and rejects
  every other text.
\<close>

definition site_test_platform :: platform where
  "site_test_platform =
     \<lparr>new_URL = (\<lambda>s. if s = js ''https://site.test/page''
                       then Inr \<lparr>protocol = js ''https:'', host = js ''site.test'', href = s\<rparr>
                       else Inl (TypeError (js ''Invalid URL''))),
      new_URL_base = (\<lambda>s b. Inl (TypeError (js ''Invalid URL'')))\<rparr>"

definition scenario_data :: ScrapedData where
  "scenario_data =
     \<lparr>title = js ''Untitled'', content = js ''A Go'', headings = [js ''A''],
      links = [\<lparr>text' = js ''Go'', url = js ''https://site.test/x''\<rparr>]\<rparr>"


text \<open>
  A world for the examples: one user with the token \<open>token\<close>, a site that answers
  every fetch with \<open>page\<close>, the credential \<open>key\<close>, a summarisation service
  that answers every call with \<open>ai\<close>, and the record store \<open>store\<close>.
\<close>

definition example_world ::
  "(exn + response) \<Rightarrow> jstring option \<Rightarrow> (exn + ai_response) \<Rightarrow> (row \<Rightarrow> jstring + saved_row) \<Rightarrow> world" where
  "example_world page key ai store =
     \<lparr>URLs = site_test_platform,
      getUser = (\<lambda>t. if t = js ''token'' then Some \<lparr>user_id = js ''u1''\<rparr> else None),
      fetch = (\<lambda>u. page),
      OPENAI_API_KEY = key,
      openai = (\<lambda>k p. ai),
      insert_row = store\<rparr>"

definition example_request :: request where
  "example_request =
     \<lparr>req_method = js ''POST'', authorization = Some (js ''Bearer token''),
      body = Body (Some (js ''https://site.test/page''))\<rparr>"

text \<open>A store that accepts every row, and one that refuses every row.\<close>

definition store_ok :: "row \<Rightarrow> jstring + saved_row" where
  "store_ok r =
     Inr \<lparr>row_user_id = row_user_id r, row_url = row_url r, row_title = row_title r,
          row_content = row_content r, row_headings = row_headings r, row_links = row_links r,
          ai_summary = ai_summary r, analysis_status = analysis_status r,
          saved_id = js ''id1'', created_at = js ''2025-07-04''\<rparr>"

definition store_down :: "row \<Rightarrow> jstring + saved_row" where
  "store_down r = Inl (js ''unavailable'')"

text \<open>The site's answer with the scenario document.\<close>

definition scenario_page :: "exn + response" where
  "scenario_page = Inr \<lparr>status = 200, body_text = Inr scenario_doc\<rparr>"

text \<open>The site's answer with an empty document, and what the extractor makes of it.\<close>

definition blank_page :: "exn + response" where
  "blank_page = Inr \<lparr>status = 200, body_text = Inr []\<rparr>"

definition blank_data :: ScrapedData where
  "blank_data = \<lparr>title = js ''Untitled'', content = [], headings = [], links = []\<rparr>"




text \<open>
  An anchor whose href is relative and has \<^verbatim>\<open>://\<close> in its query:
  \<^verbatim>\<open><a href="go?next=http://a.b/">x</a>\<close>.
\<close>

definition anchor_relative_query :: jstring where
  "anchor_relative_query = js ''<a href='' @ [34] @ js ''go?next=http://a.b/'' @ [34] @ js ''>x</a>''"


text \<open>
  Two documents with exactly one \<^verbatim>\<open><title>Foo</title>\<close> and something else before it
  that the title pattern matches:
  \<^verbatim>\<open><titles>Bar</title><title>Foo</title>\<close> and
  \<^verbatim>\<open><!-- <title>Old</title> --><title>Foo</title>\<close>.
\<close>

definition titles_before_title :: jstring where
  "titles_before_title = js ''<titles>Bar</title><title>Foo</title>''"

definition comment_before_title :: jstring where
  "comment_before_title = js ''<!-- <title>Old</title> --><title>Foo</title>''"

section \<open>Evaluation\<close>

lemmas eval_defs = js_def lit_def lit_i_def quotes_def str_match_def str_match_g_def
  str_replace_g_def match_at_def none_of_def one_of_def in_range_def is_cu_def is_cu_i_def
  any_cu_def is_space_def is_word_def word_boundary_def trim_def startsWith_def substring0_def

lemmas re_defs = title_re_def heading_re_def heading_text_re_def link_re_def href_re_def
  link_text_re_def script_re_def style_re_def noscript_re_def tag_re_def spaces_re_def nav_re_def
  scheme_re_def

lemma scenario_parse:
  "parseHtml site_test_platform scenario_doc (js ''https://site.test/page'') = Inr scenario_data"
  by (simp add: parseHtml_def heading_of_def link_of_def scenario_doc_def
      site_test_platform_def scenario_data_def eval_defs re_defs)

section \<open>The matcher finds exactly the matches of the pattern\<close>

lemma lastp_append: "lastp p (u @ v) = lastp (lastp p u) v"
  by (induction u arbitrary: p) auto

lemma endsI: "cs = w @ cs' \<Longrightarrow> den r p w cs' caps \<Longrightarrow> (lastp p w, cs', g @ caps) \<in> ends r p cs g"
  by (auto simp: ends_def)

lemma endsE:
  assumes "s \<in> ends r p cs g"
  obtains w cs' caps where "s = (lastp p w, cs', g @ caps)" "cs = w @ cs'" "den r p w cs' caps"
  using assms by (auto simp: ends_def)

lemma in_star_greedy:
  "s \<in> set (star_greedy P (p, cs, g))
   \<longleftrightarrow> (\<exists>w cs'. s = (lastp p w, cs', g) \<and> cs = w @ cs' \<and> (\<forall>c \<in> set w. P c))"
proof (induction cs arbitrary: p)
  case Nil
  then show ?case by auto
next
  case (Cons c cs)
  show ?case
  proof
    assume "s \<in> set (star_greedy P (p, c # cs, g))"
    then consider "P c" "s \<in> set (star_greedy P (Some c, cs, g))" | "s = (p, c # cs, g)"
      by (auto split: if_splits)
    then show "\<exists>w cs'. s = (lastp p w, cs', g) \<and> c # cs = w @ cs' \<and> (\<forall>c \<in> set w. P c)"
    proof cases
      case 1
      then obtain w cs' where "s = (lastp (Some c) w, cs', g)" "cs = w @ cs'" "\<forall>c \<in> set w. P c"
        unfolding Cons.IH by auto
      with 1(1) have "s = (lastp p (c # w), cs', g) \<and> c # cs = (c # w) @ cs' \<and> (\<forall>x \<in> set (c # w). P x)"
        by auto
      then show ?thesis by blast
    next
      case 2
      then have "s = (lastp p [], c # cs, g) \<and> c # cs = [] @ (c # cs) \<and> (\<forall>x \<in> set []. P x)"
        by auto
      then show ?thesis by blast
    qed
  next
    assume "\<exists>w cs'. s = (lastp p w, cs', g) \<and> c # cs = w @ cs' \<and> (\<forall>c \<in> set w. P c)"
    then obtain w cs' where s: "s = (lastp p w, cs', g)" "c # cs = w @ cs'" "\<forall>c \<in> set w. P c"
      by auto
    show "s \<in> set (star_greedy P (p, c # cs, g))"
    proof (cases w)
      case Nil
      with s show ?thesis by auto
    next
      case (Cons a w')
      with s have "a = c" "cs = w' @ cs'" "P c" "\<forall>c \<in> set w'. P c" "s = (lastp (Some c) w', cs', g)"
        by auto
      then have "s \<in> set (star_greedy P (Some c, cs, g))"
        unfolding Cons.IH by auto
      with \<open>P c\<close> show ?thesis by auto
    qed
  qed
qed

lemma set_star_lazy: "set (star_lazy P s) = set (star_greedy P s)"
proof -
  obtain p cs g where s: "s = (p, cs, g)" by (cases s) auto
  have "set (star_lazy P (p, cs, g)) = set (star_greedy P (p, cs, g))"
    by (induction cs arbitrary: p) auto
  with s show ?thesis by simp
qed

lemma run_ends: "set (run r (p, cs, g)) = ends r p cs g"
proof (induction r arbitrary: p cs g)
  case Eps
  have "(p, cs, g) = (lastp p [], cs, g @ [])" by simp
  then show ?case by (auto simp: ends_def)
next
  case (Chr P)
  show ?case
  proof (cases cs)
    case Nil
    then show ?thesis by (auto simp: ends_def)
  next
    case (Cons c cs1)
    then show ?thesis by (auto simp: ends_def)
  qed
next
  case (Seq a b)
  show ?case
  proof (intro set_eqI iffI)
    fix s assume "s \<in> set (run (Seq a b) (p, cs, g))"
    then obtain m where m: "m \<in> ends a p cs g" and s: "s \<in> set (run b m)"
      unfolding Seq.IH [symmetric] by auto
    from m obtain u cs1 c1 where m': "m = (lastp p u, cs1, g @ c1)" "cs = u @ cs1" "den a p u cs1 c1"
      by (rule endsE)
    from s have "s \<in> ends b (lastp p u) cs1 (g @ c1)"
      unfolding m' Seq.IH .
    then obtain v cs2 c2 where s': "s = (lastp (lastp p u) v, cs2, (g @ c1) @ c2)" "cs1 = v @ cs2"
      "den b (lastp p u) v cs2 c2"
      by (rule endsE)
    have "den (Seq a b) p (u @ v) cs2 (c1 @ c2)"
      using m' s' by auto
    moreover have "cs = (u @ v) @ cs2"
      using m' s' by simp
    ultimately have "(lastp p (u @ v), cs2, g @ (c1 @ c2)) \<in> ends (Seq a b) p cs g"
      by (rule endsI [rotated])
    then show "s \<in> ends (Seq a b) p cs g"
      using s' by (simp add: lastp_append)
  next
    fix s assume "s \<in> ends (Seq a b) p cs g"
    then obtain w cs' caps where s0: "s = (lastp p w, cs', g @ caps)" "cs = w @ cs'"
      "den (Seq a b) p w cs' caps"
      by (rule endsE)
    then obtain u v c1 c2 where s: "w = u @ v" "caps = c1 @ c2"
      "den a p u (v @ cs') c1" "den b (lastp p u) v cs' c2"
      by auto
    have "(lastp p u, v @ cs', g @ c1) \<in> ends a p cs g"
      using s s0 by (intro endsI) auto
    moreover have "(lastp (lastp p u) v, cs', (g @ c1) @ c2) \<in> ends b (lastp p u) (v @ cs') (g @ c1)"
      using s by (intro endsI) auto
    ultimately show "s \<in> set (run (Seq a b) (p, cs, g))"
      unfolding Seq.IH [symmetric] using s s0 by (force simp: lastp_append)
  qed
next
  case (Alt a b)
  then show ?case by (auto simp: ends_def)
next
  case (Star P)
  show ?case
    by (auto simp: ends_def in_star_greedy)
next
  case (Plus P)
  show ?case
  proof (intro set_eqI iffI)
    fix s assume "s \<in> set (run (Plus P) (p, cs, g))"
    then obtain m where m: "m \<in> set (one P (p, cs, g))" and s: "s \<in> set (star_greedy P m)"
      by auto
    from m obtain c cs1 where m': "m = (Some c, cs1, g)" "cs = c # cs1" "P c"
      by (cases cs) (auto split: if_splits)
    from s obtain w cs' where s': "s = (lastp (Some c) w, cs', g)" "cs1 = w @ cs'" "\<forall>c \<in> set w. P c"
      unfolding m' in_star_greedy by auto
    have "den (Plus P) p (c # w) cs' []"
      using m' s' by auto
    moreover have "cs = (c # w) @ cs'"
      using m' s' by simp
    ultimately have "(lastp p (c # w), cs', g @ []) \<in> ends (Plus P) p cs g"
      by (rule endsI [rotated])
    then show "s \<in> ends (Plus P) p cs g"
      using s' by simp
  next
    fix s assume "s \<in> ends (Plus P) p cs g"
    then obtain w cs' where s: "s = (lastp p w, cs', g)" "cs = w @ cs'" "w \<noteq> []" "\<forall>c \<in> set w. P c"
      by (auto elim!: endsE)
    then obtain c w' where w: "w = c # w'" by (cases w) auto
    have "(Some c, w' @ cs', g) \<in> set (one P (p, cs, g))"
      using s w by auto
    moreover have "s \<in> set (star_greedy P (Some c, w' @ cs', g))"
      unfolding in_star_greedy using s w by auto
    ultimately show "s \<in> set (run (Plus P) (p, cs, g))"
      by auto
  qed
next
  case (LazyStar P)
  show ?case
    by (auto simp: ends_def set_star_lazy in_star_greedy)
next
  case (Opt a)
  have "(p, cs, g) = (lastp p [], cs, g @ [])" by simp
  then show ?case
    unfolding run.simps set_append Opt.IH by (auto simp: ends_def)
next
  case (Grp a)
  show ?case
  proof (intro set_eqI iffI)
    fix s assume "s \<in> set (run (Grp a) (p, cs, g))"
    then obtain p' cs' g' where m: "(p', cs', g') \<in> ends a p cs g"
      and s: "s = (p', cs', g' @ [take (length cs - length cs') cs])"
      unfolding Grp.IH [symmetric] by auto
    from m obtain w c0 where m': "p' = lastp p w" "g' = g @ c0" "cs = w @ cs'" "den a p w cs' c0"
      by (auto elim!: endsE)
    have "den (Grp a) p w cs' (c0 @ [w])"
      using m' by simp
    with m'(3) have "(lastp p w, cs', g @ (c0 @ [w])) \<in> ends (Grp a) p cs g"
      by (rule endsI)
    then show "s \<in> ends (Grp a) p cs g"
      using m' s by simp
  next
    fix s assume "s \<in> ends (Grp a) p cs g"
    then obtain w cs' c0 where s: "s = (lastp p w, cs', g @ c0 @ [w])" "cs = w @ cs'" "den a p w cs' c0"
      by (auto elim!: endsE)
    then have "(lastp p w, cs', g @ c0) \<in> set (run a (p, cs, g))"
      unfolding Grp.IH by (intro endsI)
    then show "s \<in> set (run (Grp a) (p, cs, g))"
      using s by force
  qed
next
  case WordB
  have "(p, cs, g) = (lastp p [], cs, g @ [])" by simp
  then show ?case by (auto simp: ends_def)
next
  case Bol
  have "(p, cs, g) = (lastp p [], cs, g @ [])" by simp
  then show ?case by (auto simp: ends_def)
qed

section \<open>Matches of the literal parts and of the searches\<close>

lemma den_Seq_Chr:
  "den (Seq (Chr P) b) p w rest caps \<longleftrightarrow> (\<exists>c v. w = c # v \<and> P c \<and> den b (Some c) v rest caps)"
proof
  assume "den (Seq (Chr P) b) p w rest caps"
  then show "\<exists>c v. w = c # v \<and> P c \<and> den b (Some c) v rest caps"
    by auto
next
  assume "\<exists>c v. w = c # v \<and> P c \<and> den b (Some c) v rest caps"
  then obtain c v where "w = [c] @ v" "P c" "den b (lastp p [c]) v rest caps"
    by auto
  moreover from this have "den (Chr P) p [c] (v @ rest) []" "caps = [] @ caps"
    by auto
  ultimately show "den (Seq (Chr P) b) p w rest caps"
    unfolding den.simps by blast
qed

lemma den_chrs:
  "den (seqs (map (\<lambda>a. Chr (Q a)) xs)) p w rest caps \<longleftrightarrow> list_all2 Q xs w \<and> caps = []"
proof (induction xs arbitrary: p w)
  case Nil
  then show ?case by auto
next
  case (Cons x xs)
  show ?case
    unfolding list.map seqs.simps den_Seq_Chr Cons.IH
    by (cases w) auto
qed

lemma den_lit_i [simp]: "den (lit_i s) p w rest caps \<longleftrightarrow> eq_i s w \<and> caps = []"
  by (simp add: lit_i_def eq_i_def den_chrs)

lemma den_lit [simp]: "den (lit s) p w rest caps \<longleftrightarrow> w = js s \<and> caps = []"
proof -
  have "list_all2 is_cu xs w \<longleftrightarrow> w = xs" for xs
    by (induction xs arbitrary: w) (auto simp: is_cu_def list_all2_Cons1)
  then show ?thesis
    by (simp add: lit_def den_chrs)
qed

lemma match_at_None: "match_at r p cs = None \<longleftrightarrow> (\<forall>w rest caps. cs = w @ rest \<longrightarrow> \<not> den r p w rest caps)"
proof -
  have "match_at r p cs = None \<longleftrightarrow> set (run r (p, cs, [])) = {}"
    by (auto simp: match_at_def split: list.splits)
  then show ?thesis
    unfolding run_ends by (auto simp: ends_def)
qed

lemma match_at_Some:
  assumes "match_at r p cs = Some (m, caps)"
  shows "\<exists>rest. cs = m @ rest \<and> den r p m rest caps"
proof -
  from assms obtain p' cs' xs where r: "run r (p, cs, []) = (p', cs', caps) # xs"
    and m: "m = take (length cs - length cs') cs"
    by (auto simp: match_at_def split: list.splits)
  then have "(p', cs', caps) \<in> ends r p cs []"
    unfolding run_ends [symmetric] by simp
  then obtain w where "cs = w @ cs'" "den r p w cs' caps"
    by (auto elim!: endsE)
  with m show ?thesis by auto
qed

lemma exec_None:
  "exec r p cs = None \<longleftrightarrow> (\<forall>k \<le> length cs. match_at r (lastp p (take k cs)) (drop k cs) = None)"
proof (induction cs arbitrary: p)
  case Nil
  then show ?case by simp
next
  case (Cons c cs)
  have "(\<forall>k \<le> length (c # cs). match_at r (lastp p (take k (c # cs))) (drop k (c # cs)) = None)
    \<longleftrightarrow> match_at r p (c # cs) = None
       \<and> (\<forall>k \<le> length cs. match_at r (lastp (Some c) (take k cs)) (drop k cs) = None)"
    (is "?L \<longleftrightarrow> ?R")
  proof
    assume l: ?L
    have "match_at r p (c # cs) = None" using l [rule_format, of 0] by simp
    moreover have "match_at r (lastp (Some c) (take k cs)) (drop k cs) = None" if "k \<le> length cs" for k
      using l [rule_format, of "Suc k"] that by simp
    ultimately show ?R by blast
  next
    assume r: ?R
    show ?L
    proof (intro allI impI)
      fix k assume "k \<le> length (c # cs)"
      then show "match_at r (lastp p (take k (c # cs))) (drop k (c # cs)) = None"
        using r by (cases k) auto
    qed
  qed
  then show ?case
    by (simp add: Cons.IH split: option.splits)
qed

lemma exec_Some:
  assumes "exec r p cs = Some m"
  shows "\<exists>k \<le> length cs. match_at r (lastp p (take k cs)) (drop k cs) = Some m
    \<and> (\<forall>j < k. match_at r (lastp p (take j cs)) (drop j cs) = None)"
  using assms
proof (induction cs arbitrary: p)
  case Nil
  then show ?case by simp
next
  case (Cons c cs)
  show ?case
  proof (cases "match_at r p (c # cs)")
    case None
    with Cons.prems have "exec r (Some c) cs = Some m" by simp
    from Cons.IH [OF this] obtain k where k: "k \<le> length cs"
      "match_at r (lastp (Some c) (take k cs)) (drop k cs) = Some m"
      "\<forall>j < k. match_at r (lastp (Some c) (take j cs)) (drop j cs) = None"
      by blast
    have "match_at r (lastp p (take j (c # cs))) (drop j (c # cs)) = None" if "j < Suc k" for j
      using that k(3) None by (cases j) auto
    with k(1,2) show ?thesis
      by (intro exI [of _ "Suc k"]) auto
  next
    case (Some m')
    with Cons.prems have "m' = m" by simp
    with Some show ?thesis
      by (intro exI [of _ 0]) auto
  qed
qed

lemma exec_first:
  assumes "k \<le> length cs" and "match_at r (lastp p (take k cs)) (drop k cs) = Some m"
    and "\<forall>j < k. match_at r (lastp p (take j cs)) (drop j cs) = None"
  shows "exec r p cs = Some m"
proof (cases "exec r p cs")
  case None
  with assms(1,2) show ?thesis
    unfolding exec_None by auto
next
  case (Some m')
  from exec_Some [OF this] obtain k' where k': "k' \<le> length cs"
    "match_at r (lastp p (take k' cs)) (drop k' cs) = Some m'"
    "\<forall>j < k'. match_at r (lastp p (take j cs)) (drop j cs) = None"
    by blast
  have "k' = k"
  proof (rule ccontr)
    assume "k' \<noteq> k"
    then consider "k' < k" | "k < k'" by linarith
    then show False
      using assms(2,3) k'(2,3) by cases auto
  qed
  with k'(2) assms(2) Some show ?thesis by simp
qed

lemma den_Seq_plain:
  assumes "\<And>p u r c. den a p u r c \<longleftrightarrow> Q u \<and> c = []"
  shows "den (Seq a b) p w rest caps
    \<longleftrightarrow> (\<exists>u v. w = u @ v \<and> Q u \<and> den b (lastp p u) v rest caps)"
  unfolding den.simps assms by auto

lemma den_Seq_lit_i:
  "den (Seq (lit_i s) b) p w rest caps
    \<longleftrightarrow> (\<exists>u v. w = u @ v \<and> eq_i s u \<and> den b (lastp p u) v rest caps)"
  by (rule den_Seq_plain) simp

lemma den_Seq_lit:
  "den (Seq (lit s) b) p w rest caps
    \<longleftrightarrow> (\<exists>v. w = js s @ v \<and> den b (lastp p (js s)) v rest caps)"
proof -
  have "den (Seq (lit s) b) p w rest caps
    \<longleftrightarrow> (\<exists>u v. w = u @ v \<and> u = js s \<and> den b (lastp p u) v rest caps)"
    by (rule den_Seq_plain) simp
  then show ?thesis by auto
qed

lemma den_Seq_Star:
  "den (Seq (Star P) b) p w rest caps
    \<longleftrightarrow> (\<exists>u v. w = u @ v \<and> (\<forall>c \<in> set u. P c) \<and> den b (lastp p u) v rest caps)"
  by (rule den_Seq_plain) simp

lemma den_Seq_Plus:
  "den (Seq (Plus P) b) p w rest caps
    \<longleftrightarrow> (\<exists>u v. w = u @ v \<and> (u \<noteq> [] \<and> (\<forall>c \<in> set u. P c)) \<and> den b (lastp p u) v rest caps)"
  by (rule den_Seq_plain) simp

lemma den_Seq_Grp:
  assumes "\<And>p u r c. den a p u r c \<longleftrightarrow> Q u \<and> c = []"
  shows "den (Seq (Grp a) b) p w rest caps
    \<longleftrightarrow> (\<exists>u v c2. w = u @ v \<and> Q u \<and> den b (lastp p u) v rest c2 \<and> caps = u # c2)"
  unfolding den.simps assms by auto

lemma den_Seq_Grp_Plus:
  "den (Seq (Grp (Plus P)) b) p w rest caps
    \<longleftrightarrow> (\<exists>u v c2. w = u @ v \<and> (u \<noteq> [] \<and> (\<forall>c \<in> set u. P c)) \<and> den b (lastp p u) v rest c2
          \<and> caps = u # c2)"
  by (rule den_Seq_Grp) simp

lemma den_Seq_Grp_Star:
  "den (Seq (Grp (Star P)) b) p w rest caps
    \<longleftrightarrow> (\<exists>u v c2. w = u @ v \<and> (\<forall>c \<in> set u. P c) \<and> den b (lastp p u) v rest c2
          \<and> caps = u # c2)"
  by (rule den_Seq_Grp) simp

lemmas den_Seq_simps = den_Seq_lit_i den_Seq_lit den_Seq_Star den_Seq_Plus den_Seq_Grp_Plus
  den_Seq_Grp_Star den_Seq_Chr

lemma eq_i_gt [simp]: "eq_i ''>'' g \<longleftrightarrow> g = js ''>''"
  by (auto simp: eq_i_def js_def is_cu_i_def list_all2_Cons1)

lemma none_of_single [simp]: "none_of (js ''>'') x \<longleftrightarrow> x \<noteq> 62" "none_of (js ''<'') x \<longleftrightarrow> x \<noteq> 60"
  by (auto simp: none_of_def js_def)

lemma ball_none_of [simp]:
  "Ball (set a) (none_of (js ''>'')) \<longleftrightarrow> 62 \<notin> set a"
  "Ball (set a) (none_of (js ''<'')) \<longleftrightarrow> 60 \<notin> set a"
  "Ball (set a) (none_of quotes) \<longleftrightarrow> 34 \<notin> set a \<and> 39 \<notin> set a"
  by (auto simp: none_of_def js_def quotes_def)

lemma den_title_re:
  "den title_re p w rest caps \<longleftrightarrow> (\<exists>inner. title_element w inner \<and> caps = [inner])"
  unfolding title_re_def seqs.simps den_Seq_simps den.simps(1) title_element_def
  apply (simp only: eq_i_gt ball_none_of)
  apply (rule iffI)
   apply (elim exE conjE)
   apply hypsubst
   apply (simp only: append_Nil2)
   apply (intro exI conjI)
          apply (rule refl)
         apply assumption+
   apply (rule refl)
  apply (elim exE conjE)
  apply hypsubst
  apply (intro exI conjI)
                apply (rule refl | assumption | rule append_Nil2 [symmetric])+
  done

section \<open>Matches of the title pattern\<close>

lemma eq_i_length: "eq_i s w \<Longrightarrow> length w = length s"
  by (auto simp: eq_i_def js_def dest: list_all2_lengthD)

lemma eq_i_lt_hd: "eq_i (CHR ''<'' # s) c \<Longrightarrow> \<exists>c0. c = 60 # c0"
  by (auto simp: eq_i_def js_def is_cu_i_def list_all2_Cons1)

lemma split_at_first:
  "x \<notin> set xs \<Longrightarrow> x \<notin> set xs' \<Longrightarrow> xs @ x # ys = xs' @ x # ys' \<Longrightarrow> xs = xs' \<and> ys = ys'"
proof (induction xs arbitrary: xs')
  case Nil
  then show ?case by (cases xs') auto
next
  case (Cons a xs)
  then show ?case by (cases xs') auto
qed

lemma title_element_unique:
  assumes "title_element w inner" and "title_element w' inner'" and "w @ rest = w' @ rest'"
  shows "inner = inner'"
proof -
  from assms(1) obtain t a c where w: "w = t @ a @ js ''>'' @ inner @ c" "eq_i ''<title'' t"
    "62 \<notin> set a" "60 \<notin> set inner" "eq_i ''</title>'' c"
    by (auto simp: title_element_def)
  from assms(2) obtain t' a' c' where w': "w' = t' @ a' @ js ''>'' @ inner' @ c'" "eq_i ''<title'' t'"
    "62 \<notin> set a'" "60 \<notin> set inner'" "eq_i ''</title>'' c'"
    by (auto simp: title_element_def)
  from eq_i_lt_hd [OF w(5)] eq_i_lt_hd [OF w'(5)]
  obtain c0 c0' where c: "c = 60 # c0" "c' = 60 # c0'"
    by blast
  have "length t = length t'"
    using w(2) w'(2) by (simp add: eq_i_length)
  with assms(3) have "a @ 62 # (inner @ c @ rest) = a' @ 62 # (inner' @ c' @ rest')"
    unfolding w w' by (simp add: js_def)
  with w(3) w'(3) have "inner @ c @ rest = inner' @ c' @ rest'"
    by (blast dest: split_at_first)
  then have "inner @ 60 # (c0 @ rest) = inner' @ 60 # (c0' @ rest')"
    by (simp add: c)
  with w(4) w'(4) show ?thesis
    by (blast dest: split_at_first)
qed

lemma title_match_None:
  "match_at title_re p cs = None \<longleftrightarrow> \<not> (\<exists>w rest inner. cs = w @ rest \<and> title_element w inner)"
  by (auto simp: match_at_None den_title_re)

lemma title_match_Some:
  assumes "match_at title_re p cs = Some (m, caps)"
  shows "\<exists>rest inner. cs = m @ rest \<and> title_element m inner \<and> caps = [inner]"
  using match_at_Some [OF assms] by (auto simp: den_title_re)

lemma title_match_at:
  assumes "cs = w @ rest" and "title_element w inner"
  shows "\<exists>m. match_at title_re p cs = Some (m, [inner])"
proof (cases "match_at title_re p cs")
  case None
  with assms show ?thesis
    unfolding title_match_None by blast
next
  case (Some mc)
  obtain m caps where mc: "mc = (m, caps)" by (cases mc) auto
  from title_match_Some [OF Some [unfolded mc]] obtain rest' inner' where
    "cs = m @ rest'" "title_element m inner'" "caps = [inner']"
    by blast
  moreover from this assms have "inner = inner'"
    by (intro title_element_unique [of w inner m inner' rest rest']) auto
  ultimately show ?thesis
    using Some mc by simp
qed

lemma title_none:
  assumes "\<forall>k inner. \<not> title_at html k inner"
  shows "str_match html title_re = None"
  unfolding str_match_def exec_None title_match_None
  using assms by (auto simp: title_at_def)

lemma title_first:
  assumes "title_at html k inner" and "\<forall>j < k. \<forall>i. \<not> title_at html j i"
  shows "\<exists>m. str_match html title_re = Some (m, [inner])"
proof -
  from assms(1) obtain w rest where k: "k \<le> length html" "drop k html = w @ rest"
    "title_element w inner"
    by (auto simp: title_at_def)
  from title_match_at [OF k(2,3)] obtain m where
    m: "match_at title_re (lastp None (take k html)) (drop k html) = Some (m, [inner])"
    by blast
  have "match_at title_re (lastp None (take j html)) (drop j html) = None" if "j < k" for j
    unfolding title_match_None using assms(2) that k(1) by (auto simp: title_at_def)
  with k(1) m have "exec title_re None html = Some (m, [inner])"
    by (intro exec_first [of k]) auto
  then show ?thesis
    by (auto simp: str_match_def)
qed


lemma parseHtml_title:
  assumes "parseHtml W html baseUrl = Inr d"
  shows "title d = (case str_match html title_re of
                      Some titleMatch \<Rightarrow> trim (group1 titleMatch)
                    | None \<Rightarrow> js ''Untitled'')"
  using assms by (auto simp: parseHtml_def Let_def split: sum.splits)

section \<open>Properties of \<open>trim\<close>\<close>

lemma dropWhile_rev_dropWhile:
  "dropWhile P (rev (dropWhile P (rev (dropWhile P s)))) = rev (dropWhile P (rev (dropWhile P s)))"
proof -
  define t where "t = dropWhile P s"
  define u where "u = dropWhile P (rev t)"
  have "dropWhile P (rev u) = rev u"
  proof (cases "u = []")
    case True
    then show ?thesis by simp
  next
    case False
    have "rev t = takeWhile P (rev t) @ u"
      by (simp add: u_def)
    then have "last (rev t) = last u"
      using False by (metis last_appendR)
    moreover have "t \<noteq> []"
      using False by (auto simp: u_def)
    ultimately have "last u = hd t"
      by (simp add: last_rev)
    moreover have "\<not> P (hd t)"
      using \<open>t \<noteq> []\<close> unfolding t_def by (rule hd_dropWhile)
    ultimately have "\<not> P (hd (rev u))"
      using False by (simp add: hd_rev)
    then show ?thesis
      using False by (cases "rev u") auto
  qed
  then show ?thesis
    unfolding u_def t_def .
qed

lemma trim_idem: "trim (trim s) = trim s"
  by (simp add: trim_def dropWhile_rev_dropWhile)

section \<open>The size bounds of the extractor\<close>

lemma heading_of_trimmed: "trim (heading_of m) = heading_of m"
  by (simp add: heading_of_def trim_idem split: option.splits) (simp add: trim_def)

text \<open>
  C2. Whatever the document and the base URL, the output of the extractor has at most
  20 headings, at most 50 links and a content of at most 15000 code units, and every
  heading is non-empty after trimming.
\<close>

theorem C2_bounds:
  assumes "parseHtml W html baseUrl = Inr d"
  shows "length (headings d) \<le> 20 \<and> length (links d) \<le> 50 \<and> length (content d) \<le> 15000
    \<and> (\<forall>h \<in> set (headings d). trim h \<noteq> [])"
proof -
  have hs: "headings d = take 20 (filter (\<lambda>heading. length heading > 0)
      (map heading_of (str_match_g html heading_re)))"
    using assms by (auto simp: parseHtml_def Let_def split: sum.splits)
  have "trim h \<noteq> []" if "h \<in> set (headings d)" for h
  proof -
    from that have "h \<in> set (filter (\<lambda>heading. length heading > 0)
        (map heading_of (str_match_g html heading_re)))"
      unfolding hs by (rule in_set_takeD)
    then obtain m where "h = heading_of m" and "h \<noteq> []"
      by auto
    then show ?thesis
      by (simp add: heading_of_trimmed)
  qed
  moreover have "length (headings d) \<le> 20" "length (links d) \<le> 50"
    "length (content d) \<le> 15000"
    using assms
    by (auto simp: parseHtml_def Let_def substring0_def split: sum.splits if_splits)
  ultimately show ?thesis by blast
qed

theorem C2_bounds_witness:
  "parseHtml site_test_platform scenario_doc (js ''https://site.test/page'') = Inr scenario_data
   \<and> length (headings scenario_data) \<le> 20 \<and> length (links scenario_data) \<le> 50
   \<and> length (content scenario_data) \<le> 15000
   \<and> js ''A'' \<in> set (headings scenario_data) \<and> trim (js ''A'') \<noteq> []"
proof -
  have h: "parseHtml site_test_platform scenario_doc (js ''https://site.test/page'') = Inr scenario_data"
    by (rule scenario_parse)
  have "js ''A'' \<in> set (headings scenario_data)"
    by (simp add: scenario_data_def)
  with C2_bounds [OF h] h show ?thesis
    by blast
qed

section \<open>The scenario\<close>

text \<open>
  C7. Extracting \<^verbatim>\<open><html><body><h1>A</h1><a href="/x">Go</a></body></html>\<close> with the
  base URL \<^verbatim>\<open>https://site.test/page\<close>, whose scheme is \<open>https:\<close> and whose host is
  \<open>site.test\<close>, gives the headings \<open>["A"]\<close> and the single link with text \<open>Go\<close> and
  URL \<^verbatim>\<open>https://site.test/x\<close>: the href that begins with \<open>/\<close> is put behind the
  scheme and host of the base URL.
\<close>

theorem C7_scenario:
  assumes "new_URL W (js ''https://site.test/page'') = Inr base"
    and "protocol base = js ''https:''" and "host base = js ''site.test''"
  shows "\<exists>d. parseHtml W scenario_doc (js ''https://site.test/page'') = Inr d
    \<and> headings d = [js ''A'']
    \<and> links d = [\<lparr>text' = js ''Go'', url = js ''https://site.test/x''\<rparr>]"
  using assms
  by (simp add: parseHtml_def heading_of_def link_of_def scenario_doc_def eval_defs re_defs)

theorem C7_scenario_witness:
  "new_URL site_test_platform (js ''https://site.test/page'')
     = Inr \<lparr>protocol = js ''https:'', host = js ''site.test'', href = js ''https://site.test/page''\<rparr>
   \<and> (\<exists>d. parseHtml site_test_platform scenario_doc (js ''https://site.test/page'') = Inr d
      \<and> headings d = [js ''A'']
      \<and> links d = [\<lparr>text' = js ''Go'', url = js ''https://site.test/x''\<rparr>])"
proof -
  have h: "new_URL site_test_platform (js ''https://site.test/page'')
     = Inr \<lparr>protocol = js ''https:'', host = js ''site.test'', href = js ''https://site.test/page''\<rparr>"
    by (simp add: site_test_platform_def)
  from C7_scenario [OF h] h show ?thesis
    by simp
qed


section \<open>The handler after a successful extraction\<close>

lemma pipeline_after_extract:
  assumes "authorization req = Some authHeader" and "authHeader \<noteq> []"
    and "getUser E (replace_first authHeader (js ''Bearer '') []) = Some user0"
    and "body req = Body (Some url0)" and "url0 \<noteq> []"
    and "new_URL (URLs E) url0 = Inr targetUrl"
    and "fetch E (href targetUrl) = Inr resp"
    and "200 \<le> status resp \<and> status resp \<le> 299"
    and "body_text resp = Inr html"
    and "parseHtml (URLs E) html (href targetUrl) = Inr sd"
    and "enrich E sd = (tr, aiSummary, analysisStatus)"
    and "r = \<lparr>row_user_id = user_id user0, row_url = href targetUrl,
                row_title = title sd, row_content = content sd,
                row_headings = headings sd, row_links = links sd,
                ai_summary = (if aiSummary \<noteq> [] then Some aiSummary else None),
                analysis_status = analysisStatus\<rparr>"
  shows "pipeline E req =
     ([Fetched (href targetUrl)] @ tr @ [Inserted r],
      case insert_row E r of
        Inl dbError \<Rightarrow> Inl (Error (js ''Database error: '' @ dbError))
      | Inr savedResult \<Rightarrow>
          Inr \<lparr>r_id = saved_id savedResult, r_url = row_url savedResult,
               r_title = row_title savedResult, r_content = row_content savedResult,
               r_headings = row_headings savedResult, r_links = row_links savedResult,
               r_aiSummary = ai_summary savedResult,
               r_analysisStatus = analysis_status savedResult,
               r_timestamp = created_at savedResult\<rparr>)"
  using assms by (simp add: pipeline_def ok_def Let_def split: sum.splits)

lemma serve_after_extract:
  assumes "req_method req \<noteq> js ''OPTIONS''"
    and "authorization req = Some authHeader" and "authHeader \<noteq> []"
    and "getUser E (replace_first authHeader (js ''Bearer '') []) = Some user0"
    and "body req = Body (Some url0)" and "url0 \<noteq> []"
    and "new_URL (URLs E) url0 = Inr targetUrl"
    and "fetch E (href targetUrl) = Inr resp"
    and "200 \<le> status resp \<and> status resp \<le> 299"
    and "body_text resp = Inr html"
    and "parseHtml (URLs E) html (href targetUrl) = Inr sd"
    and "enrich E sd = (tr, aiSummary, analysisStatus)"
    and "r = \<lparr>row_user_id = user_id user0, row_url = href targetUrl,
                row_title = title sd, row_content = content sd,
                row_headings = headings sd, row_links = links sd,
                ai_summary = (if aiSummary \<noteq> [] then Some aiSummary else None),
                analysis_status = analysisStatus\<rparr>"
  shows "fst (serve E req) = [Fetched (href targetUrl)] @ tr @ [Inserted r]"
    and "insert_row E r = Inr saved \<Longrightarrow>
         snd (serve E req) = Success \<lparr>r_id = saved_id saved, r_url = row_url saved,
               r_title = row_title saved, r_content = row_content saved,
               r_headings = row_headings saved, r_links = row_links saved,
               r_aiSummary = ai_summary saved,
               r_analysisStatus = analysis_status saved,
               r_timestamp = created_at saved\<rparr>"
    and "insert_row E r = Inl dbError \<Longrightarrow>
         snd (serve E req) = Failure (js ''Database error: '' @ dbError)"
proof -
  note p = pipeline_after_extract [OF assms(2-13)]
  show "fst (serve E req) = [Fetched (href targetUrl)] @ tr @ [Inserted r]"
    using assms(1) by (simp add: serve_def p split: sum.splits)
  show "insert_row E r = Inr saved \<Longrightarrow>
         snd (serve E req) = Success \<lparr>r_id = saved_id saved, r_url = row_url saved,
               r_title = row_title saved, r_content = row_content saved,
               r_headings = row_headings saved, r_links = row_links saved,
               r_aiSummary = ai_summary saved,
               r_analysisStatus = analysis_status saved,
               r_timestamp = created_at saved\<rparr>"
    using assms(1) by (simp add: serve_def p)
  have "js ''Database error: '' @ dbError \<noteq> []"
    by (simp add: js_def)
  then show "insert_row E r = Inl dbError \<Longrightarrow>
         snd (serve E req) = Failure (js ''Database error: '' @ dbError)"
    using assms(1) by (simp add: serve_def p)
qed

lemma enrich_failed:
  assumes "OPENAI_API_KEY E = Some k" and "k \<noteq> []" and "trim (content sd) \<noteq> []"
    and "generateAISummary E (content sd) (title sd) = (tr, Inl e)"
  shows "enrich E sd = (tr, [], js ''failed'')"
  using assms by (simp add: enrich_def)

lemma enrich_pending:
  assumes "OPENAI_API_KEY E = None \<or> OPENAI_API_KEY E = Some [] \<or> trim (content sd) = []"
  shows "enrich E sd = ([], [], js ''pending'')"
  using assms by (auto simp: enrich_def split: option.splits)

section \<open>A fetch that fails\<close>

lemma decimal_404: "decimal 404 = js ''404''"
  by (simp add: decimal.simps js_def)

text \<open>
  C5. When the request reaches the fetch and the site answers with a status outside
  200..299, the pipeline throws the error \<open>Failed to fetch webpage: N\<close> with the
  decimal status \<open>N\<close>, the reply is \<^verbatim>\<open>{success: false, error}\<close> with that message,
  and no row is inserted: the fetch is the only effect.
\<close>

theorem C5_fetch_status:
  assumes "req_method req \<noteq> js ''OPTIONS''"
    and "authorization req = Some authHeader" and "authHeader \<noteq> []"
    and "getUser E (replace_first authHeader (js ''Bearer '') []) = Some user0"
    and "body req = Body (Some url0)" and "url0 \<noteq> []"
    and "new_URL (URLs E) url0 = Inr targetUrl"
    and "fetch E (href targetUrl) = Inr resp"
    and "\<not> (200 \<le> status resp \<and> status resp \<le> 299)"
  shows "pipeline E req = ([Fetched (href targetUrl)],
           Inl (Error (js ''Failed to fetch webpage: '' @ decimal (status resp))))
    \<and> serve E req = ([Fetched (href targetUrl)],
           Failure (js ''Failed to fetch webpage: '' @ decimal (status resp)))
    \<and> (\<forall>r. Inserted r \<notin> set (fst (serve E req)))"
proof -
  have p: "pipeline E req = ([Fetched (href targetUrl)],
           Inl (Error (js ''Failed to fetch webpage: '' @ decimal (status resp))))"
    using assms by (simp add: pipeline_def ok_def)
  have "js ''Failed to fetch webpage: '' @ decimal (status resp) \<noteq> []"
    by (simp add: js_def)
  with p assms(1) have s: "serve E req = ([Fetched (href targetUrl)],
           Failure (js ''Failed to fetch webpage: '' @ decimal (status resp)))"
    by (simp add: serve_def)
  from p s show ?thesis by simp
qed

theorem C5_fetch_status_witness:
  "serve (example_world (Inr \<lparr>status = 404, body_text = Inr []\<rparr>) None (Inl (Error [])) store_ok)
     example_request
   = ([Fetched (js ''https://site.test/page'')], Failure (js ''Failed to fetch webpage: 404''))"
proof -
  let ?E = "example_world (Inr \<lparr>status = 404, body_text = Inr []\<rparr>) None (Inl (Error [])) store_ok"
  have "serve ?E example_request = ([Fetched (href \<lparr>protocol = js ''https:'', host = js ''site.test'', href = js ''https://site.test/page''\<rparr>)],
           Failure (js ''Failed to fetch webpage: '' @ decimal (status \<lparr>status = 404, body_text = Inr []\<rparr>)))"
    using C5_fetch_status [of example_request "js ''Bearer token''" ?E "\<lparr>user_id = js ''u1''\<rparr>"
        "js ''https://site.test/page''"
        "\<lparr>protocol = js ''https:'', host = js ''site.test'', href = js ''https://site.test/page''\<rparr>"
        "\<lparr>status = 404, body_text = Inr []\<rparr>"]
    by (simp add: example_world_def example_request_def site_test_platform_def js_def startsWith_def)
  then show ?thesis
    by (simp add: decimal_404) (simp add: js_def)
qed


section \<open>Enrichment that fails\<close>

lemma example_reaches_extract:
  "req_method example_request \<noteq> js ''OPTIONS''"
  "authorization example_request = Some (js ''Bearer token'')"
  "js ''Bearer token'' \<noteq> []"
  "getUser (example_world page key ai store) (replace_first (js ''Bearer token'') (js ''Bearer '') [])
     = Some \<lparr>user_id = js ''u1''\<rparr>"
  "body example_request = Body (Some (js ''https://site.test/page''))"
  "js ''https://site.test/page'' \<noteq> []"
  "new_URL (URLs (example_world page key ai store)) (js ''https://site.test/page'')
     = Inr \<lparr>protocol = js ''https:'', host = js ''site.test'', href = js ''https://site.test/page''\<rparr>"
  by (simp_all add: example_world_def example_request_def site_test_platform_def js_def startsWith_def)

lemma example_fetch:
  "fetch (example_world scenario_page key ai store) u = Inr \<lparr>status = 200, body_text = Inr scenario_doc\<rparr>"
  "URLs (example_world page key ai store) = site_test_platform"
  "OPENAI_API_KEY (example_world page key ai store) = key"
  "insert_row (example_world page key ai store) = store"
  by (simp_all add: example_world_def scenario_page_def)

lemma scenario_content: "trim (content scenario_data) \<noteq> []"
  by (simp add: scenario_data_def trim_def js_def is_space_def)

lemma example_summary_fails:
  "generateAISummary (example_world page (Some (js ''sk'')) (Inl (Error (js ''timeout''))) store)
     (content scenario_data) (title scenario_data)
   = ([AskedOpenAI (prompt_of (js ''Untitled'') (js ''A Go''))], Inl (Error (js ''timeout'')))"
  by (simp add: generateAISummary_def example_world_def scenario_data_def Let_def)
     (simp add: js_def)

text \<open>
  C3 (as amended). When fetch and extraction succeed, a credential is configured, the
  content is not blank and \<open>generateAISummary\<close> throws, the handler inserts one row,
  with status \<open>failed\<close> and no summary, and whenever the store accepts that row the
  reply is \<^verbatim>\<open>{success: true, data}\<close> built from the stored row.
\<close>

theorem C3_enrichment_failure:
  assumes "req_method req \<noteq> js ''OPTIONS''"
    and "authorization req = Some authHeader" and "authHeader \<noteq> []"
    and "getUser E (replace_first authHeader (js ''Bearer '') []) = Some user0"
    and "body req = Body (Some url0)" and "url0 \<noteq> []"
    and "new_URL (URLs E) url0 = Inr targetUrl"
    and "fetch E (href targetUrl) = Inr resp"
    and "200 \<le> status resp \<and> status resp \<le> 299"
    and "body_text resp = Inr html"
    and "parseHtml (URLs E) html (href targetUrl) = Inr sd"
    and "OPENAI_API_KEY E = Some k" and "k \<noteq> []" and "trim (content sd) \<noteq> []"
    and "generateAISummary E (content sd) (title sd) = (tr, Inl e)"
  shows "\<exists>r. fst (serve E req) = [Fetched (href targetUrl)] @ tr @ [Inserted r]
    \<and> analysis_status r = js ''failed'' \<and> ai_summary r = None
    \<and> row_title r = title sd \<and> row_content r = content sd
    \<and> row_headings r = headings sd \<and> row_links r = links sd
    \<and> (\<forall>saved. insert_row E r = Inr saved \<longrightarrow>
          (\<exists>d. snd (serve E req) = Success d \<and> r_id d = saved_id saved
             \<and> r_analysisStatus d = analysis_status saved \<and> r_aiSummary d = ai_summary saved))"
proof -
  define r where "r = \<lparr>row_user_id = user_id user0, row_url = href targetUrl,
                row_title = title sd, row_content = content sd,
                row_headings = headings sd, row_links = links sd,
                ai_summary = (if ([]::jstring) \<noteq> [] then Some [] else None),
                analysis_status = js ''failed''\<rparr>"
  have en: "enrich E sd = (tr, [], js ''failed'')"
    using assms(12-15) by (rule enrich_failed)
  note s = serve_after_extract [OF assms(1-11) en r_def]
  have "analysis_status r = js ''failed''" "ai_summary r = None"
    "row_title r = title sd" "row_content r = content sd"
    "row_headings r = headings sd" "row_links r = links sd"
    by (simp_all add: r_def)
  moreover have "\<exists>d. snd (serve E req) = Success d \<and> r_id d = saved_id saved
             \<and> r_analysisStatus d = analysis_status saved \<and> r_aiSummary d = ai_summary saved"
    if "insert_row E r = Inr saved" for saved
    using s(2) [OF that] by simp
  ultimately show ?thesis
    using s(1) by blast
qed

theorem C3_enrichment_failure_witness:
  "\<exists>r. fst (serve (example_world scenario_page (Some (js ''sk'')) (Inl (Error (js ''timeout''))) store_ok)
            example_request)
        = [Fetched (js ''https://site.test/page''),
           AskedOpenAI (prompt_of (js ''Untitled'') (js ''A Go'')), Inserted r]
    \<and> analysis_status r = js ''failed'' \<and> ai_summary r = None
    \<and> (\<exists>d. snd (serve (example_world scenario_page (Some (js ''sk''))
                  (Inl (Error (js ''timeout''))) store_ok) example_request) = Success d
          \<and> r_analysisStatus d = js ''failed'' \<and> r_aiSummary d = None)"
proof -
  let ?E = "example_world scenario_page (Some (js ''sk'')) (Inl (Error (js ''timeout''))) store_ok"
  have k: "js ''sk'' \<noteq> []" by (simp add: js_def)
  have f: "fetch ?E (href \<lparr>protocol = js ''https:'', host = js ''site.test'',
      href = js ''https://site.test/page''\<rparr>) = Inr \<lparr>status = 200, body_text = Inr scenario_doc\<rparr>"
    by (rule example_fetch)
  have st: "200 \<le> status \<lparr>status = 200, body_text = Inr scenario_doc\<rparr>
      \<and> status \<lparr>status = 200, body_text = Inr scenario_doc\<rparr> \<le> 299"
    by simp
  have b: "body_text \<lparr>status = 200, body_text = Inr scenario_doc\<rparr> = Inr scenario_doc"
    by simp
  have p: "parseHtml (URLs ?E) scenario_doc
      (href \<lparr>protocol = js ''https:'', host = js ''site.test'',
      href = js ''https://site.test/page''\<rparr>) = Inr scenario_data"
    by (simp add: example_fetch scenario_parse)
  from C3_enrichment_failure [OF example_reaches_extract f st b p example_fetch(3) k
      scenario_content example_summary_fails]
  obtain r where r: "fst (serve ?E example_request)
        = [Fetched (href \<lparr>protocol = js ''https:'', host = js ''site.test'',
              href = js ''https://site.test/page''\<rparr>)]
          @ [AskedOpenAI (prompt_of (js ''Untitled'') (js ''A Go''))] @ [Inserted r]"
    "analysis_status r = js ''failed''" "ai_summary r = None"
    "\<forall>saved. insert_row ?E r = Inr saved \<longrightarrow>
          (\<exists>d. snd (serve ?E example_request) = Success d \<and> r_id d = saved_id saved
             \<and> r_analysisStatus d = analysis_status saved \<and> r_aiSummary d = ai_summary saved)"
    by blast
  have "\<exists>saved. insert_row ?E r = Inr saved \<and> analysis_status saved = js ''failed''
      \<and> ai_summary saved = None"
    using r(2,3) by (simp add: example_fetch store_ok_def)
  with r(4) obtain d where "snd (serve ?E example_request) = Success d"
    "r_analysisStatus d = js ''failed''" "r_aiSummary d = None"
    by metis
  with r(1-3) show ?thesis
    by auto
qed

theorem C3_store_counterexample:
  "snd (generateAISummary
          (example_world scenario_page (Some (js ''sk'')) (Inl (Error (js ''timeout''))) store_down)
          (content scenario_data) (title scenario_data)) = Inl (Error (js ''timeout''))
   \<and> serve (example_world scenario_page (Some (js ''sk'')) (Inl (Error (js ''timeout''))) store_down)
       example_request
     = ([Fetched (js ''https://site.test/page''),
         AskedOpenAI (prompt_of (js ''Untitled'') (js ''A Go'')),
         Inserted \<lparr>row_user_id = js ''u1'', row_url = js ''https://site.test/page'',
           row_title = js ''Untitled'', row_content = js ''A Go'', row_headings = [js ''A''],
           row_links = [\<lparr>text' = js ''Go'', url = js ''https://site.test/x''\<rparr>],
           ai_summary = None, analysis_status = js ''failed''\<rparr>],
        Failure (js ''Database error: unavailable''))"
proof -
  let ?E = "example_world scenario_page (Some (js ''sk'')) (Inl (Error (js ''timeout''))) store_down"
  have k: "js ''sk'' \<noteq> []" by (simp add: js_def)
  have f: "fetch ?E (href \<lparr>protocol = js ''https:'', host = js ''site.test'',
      href = js ''https://site.test/page''\<rparr>) = Inr \<lparr>status = 200, body_text = Inr scenario_doc\<rparr>"
    by (rule example_fetch)
  have st: "200 \<le> status \<lparr>status = 200, body_text = Inr scenario_doc\<rparr>
      \<and> status \<lparr>status = 200, body_text = Inr scenario_doc\<rparr> \<le> 299"
    by simp
  have b: "body_text \<lparr>status = 200, body_text = Inr scenario_doc\<rparr> = Inr scenario_doc"
    by simp
  have p: "parseHtml (URLs ?E) scenario_doc
      (href \<lparr>protocol = js ''https:'', host = js ''site.test'',
      href = js ''https://site.test/page''\<rparr>) = Inr scenario_data"
    by (simp add: example_fetch scenario_parse)
  have en: "enrich ?E scenario_data
      = ([AskedOpenAI (prompt_of (js ''Untitled'') (js ''A Go''))], [], js ''failed'')"
    using example_fetch(3) k scenario_content example_summary_fails by (rule enrich_failed)
  note s = serve_after_extract [OF example_reaches_extract f st b p en refl]
  have "snd (serve ?E example_request) = Failure (js ''Database error: '' @ js ''unavailable'')"
    by (rule s(3)) (simp add: example_fetch store_down_def)
  moreover have "js ''Database error: '' @ js ''unavailable'' = js ''Database error: unavailable''"
    by (simp add: js_def)
  ultimately have sn: "snd (serve ?E example_request) = Failure (js ''Database error: unavailable'')"
    by simp
  have g: "snd (generateAISummary ?E (content scenario_data) (title scenario_data))
      = Inl (Error (js ''timeout''))"
    by (simp add: example_summary_fails)
  have t: "fst (serve ?E example_request)
     = [Fetched (js ''https://site.test/page''),
         AskedOpenAI (prompt_of (js ''Untitled'') (js ''A Go'')),
         Inserted \<lparr>row_user_id = js ''u1'', row_url = js ''https://site.test/page'',
           row_title = js ''Untitled'', row_content = js ''A Go'', row_headings = [js ''A''],
           row_links = [\<lparr>text' = js ''Go'', url = js ''https://site.test/x''\<rparr>],
           ai_summary = None, analysis_status = js ''failed''\<rparr>]"
    using s(1) by (simp add: scenario_data_def)
  show ?thesis
    using g t sn by (simp add: prod_eq_iff)
qed


section \<open>Enrichment that is not attempted\<close>

lemma blank_parse:
  "parseHtml site_test_platform [] (js ''https://site.test/page'') = Inr blank_data"
  by (simp add: parseHtml_def blank_data_def eval_defs re_defs)

text \<open>
  C4 (as amended). When fetch and extraction succeed and no credential is configured
  (none, or the empty text) or the extracted content is blank, the summarisation
  service is not called: after the fetch the handler only inserts one row, with status
  \<open>pending\<close> and no summary, and whenever the store accepts that row the reply is
  \<^verbatim>\<open>{success: true, data}\<close> built from the stored row.
\<close>

theorem C4_enrichment_skipped:
  assumes "req_method req \<noteq> js ''OPTIONS''"
    and "authorization req = Some authHeader" and "authHeader \<noteq> []"
    and "getUser E (replace_first authHeader (js ''Bearer '') []) = Some user0"
    and "body req = Body (Some url0)" and "url0 \<noteq> []"
    and "new_URL (URLs E) url0 = Inr targetUrl"
    and "fetch E (href targetUrl) = Inr resp"
    and "200 \<le> status resp \<and> status resp \<le> 299"
    and "body_text resp = Inr html"
    and "parseHtml (URLs E) html (href targetUrl) = Inr sd"
    and "OPENAI_API_KEY E = None \<or> OPENAI_API_KEY E = Some [] \<or> trim (content sd) = []"
  shows "\<exists>r. fst (serve E req) = [Fetched (href targetUrl), Inserted r]
    \<and> analysis_status r = js ''pending'' \<and> ai_summary r = None
    \<and> row_title r = title sd \<and> row_content r = content sd
    \<and> row_headings r = headings sd \<and> row_links r = links sd
    \<and> (\<forall>saved. insert_row E r = Inr saved \<longrightarrow>
          (\<exists>d. snd (serve E req) = Success d \<and> r_id d = saved_id saved
             \<and> r_analysisStatus d = analysis_status saved \<and> r_aiSummary d = ai_summary saved))"
proof -
  define r where "r = \<lparr>row_user_id = user_id user0, row_url = href targetUrl,
                row_title = title sd, row_content = content sd,
                row_headings = headings sd, row_links = links sd,
                ai_summary = (if ([]::jstring) \<noteq> [] then Some [] else None),
                analysis_status = js ''pending''\<rparr>"
  have en: "enrich E sd = ([], [], js ''pending'')"
    using assms(12) by (rule enrich_pending)
  note s = serve_after_extract [OF assms(1-11) en r_def]
  have "analysis_status r = js ''pending''" "ai_summary r = None"
    "row_title r = title sd" "row_content r = content sd"
    "row_headings r = headings sd" "row_links r = links sd"
    by (simp_all add: r_def)
  moreover have "\<exists>d. snd (serve E req) = Success d \<and> r_id d = saved_id saved
             \<and> r_analysisStatus d = analysis_status saved \<and> r_aiSummary d = ai_summary saved"
    if "insert_row E r = Inr saved" for saved
    using s(2) [OF that] by simp
  moreover have "fst (serve E req) = [Fetched (href targetUrl), Inserted r]"
    using s(1) by simp
  ultimately show ?thesis
    by blast
qed

theorem C4_enrichment_skipped_witness:
  "(\<exists>r. fst (serve (example_world scenario_page None (Inl (Error (js ''timeout''))) store_ok)
            example_request)
        = [Fetched (js ''https://site.test/page''), Inserted r]
    \<and> analysis_status r = js ''pending'' \<and> ai_summary r = None
    \<and> (\<exists>d. snd (serve (example_world scenario_page None
                  (Inl (Error (js ''timeout''))) store_ok) example_request) = Success d
          \<and> r_analysisStatus d = js ''pending'' \<and> r_aiSummary d = None))
   \<and> (\<exists>r. fst (serve (example_world blank_page (Some (js ''sk''))
                  (Inl (Error (js ''timeout''))) store_ok) example_request)
        = [Fetched (js ''https://site.test/page''), Inserted r]
    \<and> analysis_status r = js ''pending'' \<and> ai_summary r = None
    \<and> (\<exists>d. snd (serve (example_world blank_page (Some (js ''sk''))
                  (Inl (Error (js ''timeout''))) store_ok) example_request) = Success d
          \<and> r_analysisStatus d = js ''pending'' \<and> r_aiSummary d = None))"
proof -
  let ?E = "example_world scenario_page None (Inl (Error (js ''timeout''))) store_ok"
  let ?F = "example_world blank_page (Some (js ''sk'')) (Inl (Error (js ''timeout''))) store_ok"
  let ?u = "\<lparr>protocol = js ''https:'', host = js ''site.test'', href = js ''https://site.test/page''\<rparr>"
  have f: "fetch ?E (href ?u) = Inr \<lparr>status = 200, body_text = Inr scenario_doc\<rparr>"
    by (rule example_fetch)
  have st: "200 \<le> status \<lparr>status = 200, body_text = Inr scenario_doc\<rparr>
      \<and> status \<lparr>status = 200, body_text = Inr scenario_doc\<rparr> \<le> 299"
    by simp
  have b: "body_text \<lparr>status = 200, body_text = Inr scenario_doc\<rparr> = Inr scenario_doc"
    by simp
  have p: "parseHtml (URLs ?E) scenario_doc (href ?u)
      = Inr scenario_data"
    by (simp add: example_fetch scenario_parse)
  have c: "OPENAI_API_KEY ?E = None \<or> OPENAI_API_KEY ?E = Some []
      \<or> trim (content scenario_data) = []"
    by (simp add: example_fetch)
  from C4_enrichment_skipped [OF example_reaches_extract f st b p c]
  obtain r where r: "fst (serve ?E example_request) = [Fetched (href ?u), Inserted r]"
    "analysis_status r = js ''pending''" "ai_summary r = None"
    "\<forall>saved. insert_row ?E r = Inr saved \<longrightarrow>
          (\<exists>d. snd (serve ?E example_request) = Success d \<and> r_id d = saved_id saved
             \<and> r_analysisStatus d = analysis_status saved \<and> r_aiSummary d = ai_summary saved)"
    by blast
  have "\<exists>saved. insert_row ?E r = Inr saved \<and> analysis_status saved = js ''pending''
      \<and> ai_summary saved = None"
    using r(2,3) by (simp add: example_fetch store_ok_def)
  with r(4) obtain d where "snd (serve ?E example_request) = Success d"
    "r_analysisStatus d = js ''pending''" "r_aiSummary d = None"
    by metis
  with r(1-3) have first: "\<exists>r. fst (serve ?E example_request)
        = [Fetched (js ''https://site.test/page''), Inserted r]
    \<and> analysis_status r = js ''pending'' \<and> ai_summary r = None
    \<and> (\<exists>d. snd (serve ?E example_request) = Success d
          \<and> r_analysisStatus d = js ''pending'' \<and> r_aiSummary d = None)"
    by auto
  have f': "fetch ?F (href ?u) = Inr \<lparr>status = 200, body_text = Inr []\<rparr>"
    by (simp add: example_world_def blank_page_def)
  have st': "200 \<le> status \<lparr>status = 200, body_text = Inr []\<rparr>
      \<and> status \<lparr>status = 200, body_text = Inr []\<rparr> \<le> 299"
    by simp
  have b': "body_text \<lparr>status = 200, body_text = Inr []\<rparr> = Inr []"
    by simp
  have p': "parseHtml (URLs ?F) [] (href ?u)
      = Inr blank_data"
    by (simp add: example_fetch blank_parse)
  have c': "OPENAI_API_KEY ?F = None \<or> OPENAI_API_KEY ?F = Some []
      \<or> trim (content blank_data) = []"
    by (simp add: blank_data_def trim_def)
  from C4_enrichment_skipped [OF example_reaches_extract f' st' b' p' c']
  obtain r' where r': "fst (serve ?F example_request) = [Fetched (href ?u), Inserted r']"
    "analysis_status r' = js ''pending''" "ai_summary r' = None"
    "\<forall>saved. insert_row ?F r' = Inr saved \<longrightarrow>
          (\<exists>d. snd (serve ?F example_request) = Success d \<and> r_id d = saved_id saved
             \<and> r_analysisStatus d = analysis_status saved \<and> r_aiSummary d = ai_summary saved)"
    by blast
  have "\<exists>saved. insert_row ?F r' = Inr saved \<and> analysis_status saved = js ''pending''
      \<and> ai_summary saved = None"
    using r'(2,3) by (simp add: example_fetch store_ok_def)
  with r'(4) obtain d' where "snd (serve ?F example_request) = Success d'"
    "r_analysisStatus d' = js ''pending''" "r_aiSummary d' = None"
    by metis
  with r'(1-3) have second: "\<exists>r. fst (serve ?F example_request)
        = [Fetched (js ''https://site.test/page''), Inserted r]
    \<and> analysis_status r = js ''pending'' \<and> ai_summary r = None
    \<and> (\<exists>d. snd (serve ?F example_request) = Success d
          \<and> r_analysisStatus d = js ''pending'' \<and> r_aiSummary d = None)"
    by auto
  from first second show ?thesis
    by blast
qed

theorem C4_store_counterexample:
  "OPENAI_API_KEY (example_world scenario_page None (Inl (Error (js ''timeout''))) store_down) = None
   \<and> serve (example_world scenario_page None (Inl (Error (js ''timeout''))) store_down)
       example_request
     = ([Fetched (js ''https://site.test/page''),
         Inserted \<lparr>row_user_id = js ''u1'', row_url = js ''https://site.test/page'',
           row_title = js ''Untitled'', row_content = js ''A Go'', row_headings = [js ''A''],
           row_links = [\<lparr>text' = js ''Go'', url = js ''https://site.test/x''\<rparr>],
           ai_summary = None, analysis_status = js ''pending''\<rparr>],
        Failure (js ''Database error: unavailable''))"
proof -
  let ?E = "example_world scenario_page None (Inl (Error (js ''timeout''))) store_down"
  let ?u = "\<lparr>protocol = js ''https:'', host = js ''site.test'', href = js ''https://site.test/page''\<rparr>"
  have f: "fetch ?E (href ?u) = Inr \<lparr>status = 200, body_text = Inr scenario_doc\<rparr>"
    by (rule example_fetch)
  have st: "200 \<le> status \<lparr>status = 200, body_text = Inr scenario_doc\<rparr>
      \<and> status \<lparr>status = 200, body_text = Inr scenario_doc\<rparr> \<le> 299"
    by simp
  have b: "body_text \<lparr>status = 200, body_text = Inr scenario_doc\<rparr> = Inr scenario_doc"
    by simp
  have p: "parseHtml (URLs ?E) scenario_doc (href ?u)
      = Inr scenario_data"
    by (simp add: example_fetch scenario_parse)
  have en: "enrich ?E scenario_data = ([], [], js ''pending'')"
    by (rule enrich_pending) (simp add: example_fetch)
  note s = serve_after_extract [OF example_reaches_extract f st b p en refl]
  have "snd (serve ?E example_request) = Failure (js ''Database error: '' @ js ''unavailable'')"
    by (rule s(3)) (simp add: example_fetch store_down_def)
  moreover have "js ''Database error: '' @ js ''unavailable'' = js ''Database error: unavailable''"
    by (simp add: js_def)
  ultimately have sn: "snd (serve ?E example_request) = Failure (js ''Database error: unavailable'')"
    by simp
  have t: "fst (serve ?E example_request)
     = [Fetched (js ''https://site.test/page''),
         Inserted \<lparr>row_user_id = js ''u1'', row_url = js ''https://site.test/page'',
           row_title = js ''Untitled'', row_content = js ''A Go'', row_headings = [js ''A''],
           row_links = [\<lparr>text' = js ''Go'', url = js ''https://site.test/x''\<rparr>],
           ai_summary = None, analysis_status = js ''pending''\<rparr>]"
    using s(1) by (simp add: scenario_data_def)
  show ?thesis
    using t sn by (simp add: prod_eq_iff example_fetch)
qed


section \<open>The title\<close>

lemma title_at_prefix:
  assumes "title_at html k inner"
  shows "eq_i ''<title'' (take 6 (drop k html))"
proof -
  from assms obtain w rest t a c where "drop k html = w @ rest" "w = t @ a @ js ''>'' @ inner @ c"
    "eq_i ''<title'' t"
    by (auto simp: title_at_def title_element_def)
  moreover from this have "length t = 6"
    by (simp add: eq_i_length)
  ultimately show ?thesis by simp
qed

lemma trim_Foo: "trim (js ''Foo'') = js ''Foo''"
  by (simp add: trim_def js_def is_space_def)

lemma title_at_Foo: "title_at (pre @ js ''<title>Foo</title>'' @ post) (length pre) (js ''Foo'')"
proof -
  have "title_element (js ''<title>Foo</title>'') (js ''Foo'')"
    unfolding title_element_def
    apply (rule exI [of _ "js ''<title''"])
    apply (rule exI [of _ "[]"])
    apply (rule exI [of _ "js ''</title>''"])
    apply (simp add: js_def eq_i_def is_cu_i_def)
    done
  then show ?thesis
    by (auto simp: title_at_def)
qed

lemma no_title_before:
  assumes "\<not> occurs_i ''<title'' pre" and "j < length pre"
  shows "\<not> title_at (pre @ 60 # rest) j i"
proof
  assume "title_at (pre @ 60 # rest) j i"
  then have e: "eq_i ''<title'' (take 6 (drop j (pre @ 60 # rest)))"
    by (rule title_at_prefix)
  show False
  proof (cases "j + 6 \<le> length pre")
    case True
    then have "take 6 (drop j (pre @ 60 # rest)) = take 6 (drop j pre)"
      by simp
    moreover have "pre = take j pre @ take 6 (drop j pre) @ drop 6 (drop j pre)"
      by (simp only: append_take_drop_id)
    ultimately show False
      using e assms(1) unfolding occurs_i_def by metis
  next
    case False
    define n where "n = length pre - j"
    have n: "0 < n" "n < 6"
      using False assms(2) by (auto simp: n_def)
    have "list_all2 is_cu_i (js ''<title'') (take 6 (drop j (pre @ 60 # rest)))"
      using e by (simp add: eq_i_def)
    moreover have "n < length (js ''<title'')"
      using n by (simp add: js_def)
    ultimately have "is_cu_i (js ''<title'' ! n) (take 6 (drop j (pre @ 60 # rest)) ! n)"
      by (rule list_all2_nthD)
    moreover have "take 6 (drop j (pre @ 60 # rest)) ! n = 60"
      using n assms(2) by (simp add: n_def nth_append)
    ultimately have "is_cu_i (js ''<title'' ! n) 60"
      by simp
    moreover from n have "n = 1 \<or> n = 2 \<or> n = 3 \<or> n = 4 \<or> n = 5"
      by auto
    ultimately show False
      by (auto simp: js_def is_cu_i_def)
  qed
qed

lemma occurs_i_iff:
  "occurs_i s w \<longleftrightarrow> list_ex (\<lambda>k. eq_i s (take (length s) (drop k w))) [0..<Suc (length w)]"
proof
  assume "occurs_i s w"
  then obtain u x v where w: "w = u @ x @ v" "eq_i s x"
    by (auto simp: occurs_i_def)
  then have "length x = length s"
    by (simp add: eq_i_length)
  with w have "eq_i s (take (length s) (drop (length u) w))" "length u \<le> length w"
    by auto
  then show "list_ex (\<lambda>k. eq_i s (take (length s) (drop k w))) [0..<Suc (length w)]"
    unfolding list_ex_iff by (intro bexI [of _ "length u"]) auto
next
  assume "list_ex (\<lambda>k. eq_i s (take (length s) (drop k w))) [0..<Suc (length w)]"
  then obtain k where "eq_i s (take (length s) (drop k w))"
    unfolding list_ex_iff by blast
  moreover have "w = take k w @ take (length s) (drop k w) @ drop (length s) (drop k w)"
    by (simp only: append_take_drop_id)
  ultimately show "occurs_i s w"
    unfolding occurs_i_def by blast
qed

text \<open>
  C6 (as amended). The title of the extractor's output is the trimmed inner text of the first title
  element of the document (\<^verbatim>\<open><title\<close> in any case, anything up to \<^verbatim>\<open>>\<close>, a non-empty
  inner text without \<^verbatim>\<open><\<close>, \<^verbatim>\<open></title>\<close> in any case), and \<open>Untitled\<close> when the
  document has no such element; in particular a document whose first title element is
  \<^verbatim>\<open><title>Foo</title>\<close> has the title \<open>Foo\<close>, and \<^verbatim>\<open><title>Foo</title>\<close> is the first
  title element when \<^verbatim>\<open><title\<close> does not occur before it. The elements are those of the
  text as the pattern reads it, so a stretch of this form inside a comment, or one whose
  tag name only begins with \<open>title\<close>, counts as well: such a stretch before
  \<^verbatim>\<open><title>Foo</title>\<close> gives its own inner text as the title.
\<close>

theorem C6_title:
  assumes "parseHtml W html baseUrl = Inr d"
  shows "((\<forall>k inner. \<not> title_at html k inner) \<longrightarrow> title d = js ''Untitled'')
    \<and> (\<forall>k inner. title_at html k inner \<and> (\<forall>j < k. \<forall>i. \<not> title_at html j i)
          \<longrightarrow> title d = trim inner)
    \<and> (\<forall>pre post. html = pre @ js ''<title>Foo</title>'' @ post
          \<and> (\<forall>j < length pre. \<forall>i. \<not> title_at html j i)
          \<longrightarrow> title d = js ''Foo'')
    \<and> (\<forall>pre post. html = pre @ js ''<title>Foo</title>'' @ post \<and> \<not> occurs_i ''<title'' pre
          \<longrightarrow> title d = js ''Foo'')"
proof -
  note t = parseHtml_title [OF assms]
  have none: "title d = js ''Untitled''" if "\<forall>k inner. \<not> title_at html k inner"
    using title_none [OF that] t by simp
  have first: "title d = trim inner"
    if "title_at html k inner" "\<forall>j < k. \<forall>i. \<not> title_at html j i" for k inner
    using title_first [OF that] t by auto
  have foo: "title d = js ''Foo''"
    if "html = pre @ js ''<title>Foo</title>'' @ post" "\<forall>j < length pre. \<forall>i. \<not> title_at html j i"
    for pre post
  proof -
    have "title_at html (length pre) (js ''Foo'')"
      unfolding that(1) by (rule title_at_Foo)
    from first [OF this that(2)] show ?thesis
      by (simp add: trim_Foo)
  qed
  have "title d = js ''Foo''"
    if h: "html = pre @ js ''<title>Foo</title>'' @ post" and n: "\<not> occurs_i ''<title'' pre"
    for pre post
  proof -
    have "js ''<title>Foo</title>'' @ post = 60 # (js ''title>Foo</title>'' @ post)"
      by (simp add: js_def)
    then have "\<forall>j < length pre. \<forall>i. \<not> title_at html j i"
      unfolding h using no_title_before [OF n] by simp
    with h show ?thesis by (rule foo)
  qed
  with none first foo show ?thesis
    by blast
qed

lemma all_less_upt: "(\<forall>j < n. P j) \<longleftrightarrow> list_all P [0..<n]"
  by (auto simp: list_all_iff)

lemma Foo_doc_no_earlier:
  assumes "j < 12"
  shows "\<not> title_at (js ''<html><head>'' @ js ''<title>Foo</title>'' @ js ''</head></html>'') j i"
proof
  assume "title_at (js ''<html><head>'' @ js ''<title>Foo</title>'' @ js ''</head></html>'') j i"
  then have "eq_i ''<title''
      (take 6 (drop j (js ''<html><head>'' @ js ''<title>Foo</title>'' @ js ''</head></html>'')))"
    by (rule title_at_prefix)
  moreover have "\<forall>j < 12. \<not> eq_i ''<title''
      (take 6 (drop j (js ''<html><head>'' @ js ''<title>Foo</title>'' @ js ''</head></html>'')))"
    unfolding all_less_upt by (simp add: upt_rec js_def eq_i_def is_cu_i_def)
  ultimately show False
    using assms by blast
qed

lemma Foo_doc_parse:
  "parseHtml site_test_platform
     (js ''<html><head>'' @ js ''<title>Foo</title>'' @ js ''</head></html>'')
     (js ''https://site.test/page'')
   = Inr \<lparr>title = js ''Foo'', content = js ''Foo'', headings = [], links = []\<rparr>"
  by (simp add: parseHtml_def eval_defs re_defs)

theorem C6_title_witness:
  "parseHtml site_test_platform
     (js ''<html><head>'' @ js ''<title>Foo</title>'' @ js ''</head></html>'')
     (js ''https://site.test/page'')
   = Inr \<lparr>title = js ''Foo'', content = js ''Foo'', headings = [], links = []\<rparr>
   \<and> title_at (js ''<html><head>'' @ js ''<title>Foo</title>'' @ js ''</head></html>'') 12 (js ''Foo'')
   \<and> \<not> occurs_i ''<title'' (js ''<html><head>'')
   \<and> title \<lparr>title = js ''Foo'', content = js ''Foo'', headings = [], links = []\<rparr> = js ''Foo''
   \<and> parseHtml site_test_platform [] (js ''https://site.test/page'') = Inr blank_data
   \<and> title blank_data = js ''Untitled''"
proof -
  let ?doc = "js ''<html><head>'' @ js ''<title>Foo</title>'' @ js ''</head></html>''"
  have "\<forall>j < length (js ''<html><head>''). \<forall>i. \<not> title_at ?doc j i"
    using Foo_doc_no_earlier by (simp add: js_def)
  with C6_title [OF Foo_doc_parse] have 1:
    "title \<lparr>title = js ''Foo'', content = js ''Foo'', headings = [], links = []\<rparr> = js ''Foo''"
    by blast
  have "\<not> title_at [] k inner" for k inner
    by (auto simp: title_at_def title_element_def js_def)
  with C6_title [OF blank_parse] have 2: "title blank_data = js ''Untitled''"
    by blast
  have l: "length (js ''<html><head>'') = 12"
    by (simp add: js_def)
  have 3: "title_at ?doc 12 (js ''Foo'')"
    using title_at_Foo [of "js ''<html><head>''" "js ''</head></html>''"] unfolding l .
  have 4: "\<not> occurs_i ''<title'' (js ''<html><head>'')"
    unfolding occurs_i_iff by (simp add: upt_rec js_def eq_i_def is_cu_i_def)
  with C6_title [OF Foo_doc_parse] have
    "title \<lparr>title = js ''Foo'', content = js ''Foo'', headings = [], links = []\<rparr> = js ''Foo''"
    by blast
  with 2 3 4 Foo_doc_parse blank_parse show ?thesis
    by blast
qed


theorem C6_earlier_match_counterexample:
  "parseHtml site_test_platform titles_before_title (js ''https://site.test/page'')
   = Inr \<lparr>title = js ''Bar'', content = js ''Bar Foo'', headings = [], links = []\<rparr>
   \<and> parseHtml site_test_platform comment_before_title (js ''https://site.test/page'')
   = Inr \<lparr>title = js ''Old'', content = js ''Old --> Foo'', headings = [], links = []\<rparr>
   \<and> js ''Bar'' \<noteq> js ''Foo'' \<and> js ''Old'' \<noteq> js ''Foo''
   \<and> titles_before_title = js ''<titles>Bar</title>'' @ js ''<title>Foo</title>''
   \<and> comment_before_title = js ''<!-- <title>Old</title> -->'' @ js ''<title>Foo</title>''"
  by (simp add: parseHtml_def titles_before_title_def comment_before_title_def eval_defs re_defs)

section \<open>Title elements that the pattern does not match\<close>













section \<open>Matches of the link pattern\<close>






lemma parseHtml_links:
  assumes "parseHtml W html baseUrl = Inr d"
  shows "\<exists>ls. map_exn (link_of W baseUrl) (str_match_g html link_re) = Inr ls
    \<and> links d = take 50 (map the (filter link_ok ls))"
  using assms by (auto simp: parseHtml_def Let_def split: sum.splits)



section \<open>Anchors that the pattern does not match\<close>
















section \<open>URLs of the extracted links\<close>

lemma links_pass_filter:
  assumes "parseHtml W html baseUrl = Inr d" and "l \<in> set (links d)"
  shows "text' l \<noteq> [] \<and> url l \<noteq> [] \<and> \<not> startsWith (url l) (js ''javascript:'')
    \<and> \<not> startsWith (url l) (js ''mailto:'')"
proof -
  from parseHtml_links [OF assms(1)] obtain ls where
    "links d = take 50 (map the (filter link_ok ls))"
    by blast
  with assms(2) have "l \<in> set (map the (filter link_ok ls))"
    by (auto dest: in_set_takeD)
  then obtain y where y: "link_ok y" "l = the y"
    by auto
  then show ?thesis
    by (cases y) auto
qed

text \<open>
  C1, at the input where the code leaves it. The extractor keeps the href of
  \<^verbatim>\<open><a href="go?next=http://a.b/">x</a>\<close> as it is, because it contains \<^verbatim>\<open>://\<close>: the
  URL of the extracted link is the relative reference \<^verbatim>\<open>go?next=http://a.b/\<close>, which
  has no scheme, whatever the base URL.
\<close>

theorem C1_relative_url_kept:
  "parseHtml W anchor_relative_query baseUrl
   = Inr \<lparr>title = js ''Untitled'', content = js ''x'', headings = [],
          links = [\<lparr>text' = js ''x'', url = js ''go?next=http://a.b/''\<rparr>]\<rparr>
   \<and> \<not> has_scheme (js ''go?next=http://a.b/'')"
  by (simp add: parseHtml_def link_of_def anchor_relative_query_def eval_defs re_defs is_alpha_def)
     (simp add: Let_def)



section \<open>Normalising and validating the URL\<close>

lemma lastp_Some: "w \<noteq> [] \<Longrightarrow> lastp p w = Some (last w)"
  by (induction w arbitrary: p) auto

lemma eq_i_append: "eq_i (s1 @ s2) w \<longleftrightarrow> (\<exists>u v. w = u @ v \<and> eq_i s1 u \<and> eq_i s2 v)"
proof
  assume "eq_i (s1 @ s2) w"
  then show "\<exists>u v. w = u @ v \<and> eq_i s1 u \<and> eq_i s2 v"
    by (auto simp: eq_i_def js_def list_all2_append1)
next
  assume "\<exists>u v. w = u @ v \<and> eq_i s1 u \<and> eq_i s2 v"
  then obtain u v where "w = u @ v" "eq_i s1 u" "eq_i s2 v"
    by blast
  then show "eq_i (s1 @ s2) w"
    by (simp add: eq_i_def js_def list_all2_appendI)
qed

lemma den_scheme_re:
  "den scheme_re p w rest caps \<longleftrightarrow> p = None \<and> (eq_i ''http://'' w \<or> eq_i ''https://'' w) \<and> caps = []"
proof -
  have a: "eq_i ''http://'' w \<longleftrightarrow> (\<exists>u v. w = u @ v \<and> eq_i ''http'' u \<and> eq_i ''://'' v)" for w
    using eq_i_append [of "''http''" "''://''" w] by simp
  have b: "eq_i ''https://'' w \<longleftrightarrow> (\<exists>u s v. w = u @ s @ v \<and> eq_i ''http'' u \<and> eq_i ''s'' s \<and> eq_i ''://'' v)" for w
    using eq_i_append [of "''http''" "''s://''" w] eq_i_append [of "''s''" "''://''"] by simp blast
  have "den scheme_re p w rest caps \<longleftrightarrow> p = None \<and> caps = []
      \<and> (\<exists>u v. w = u @ v \<and> eq_i ''http'' u
            \<and> ((\<exists>s v'. v = s @ v' \<and> eq_i ''s'' s \<and> eq_i ''://'' v') \<or> eq_i ''://'' v))"
    unfolding scheme_re_def seqs.simps den.simps den_lit_i
    by (simp add: lastp_append) blast
  also have "\<dots> \<longleftrightarrow> p = None \<and> (eq_i ''http://'' w \<or> eq_i ''https://'' w) \<and> caps = []"
    unfolding a b by blast
  finally show ?thesis .
qed

lemma scheme_match_None: "str_match n scheme_re = None \<longleftrightarrow> \<not> has_http_scheme n"
proof -
  have later: "match_at scheme_re (lastp None (take k n)) (drop k n) = None"
    if "0 < k" "k \<le> length n" for k
  proof -
    from that have "take k n \<noteq> []" by auto
    then have "lastp None (take k n) \<noteq> None"
      by (simp add: lastp_Some)
    then show ?thesis
      unfolding match_at_None den_scheme_re by blast
  qed
  have first: "match_at scheme_re None n = None \<longleftrightarrow> \<not> has_http_scheme n"
    unfolding match_at_None den_scheme_re has_http_scheme_def by blast
  have "str_match n scheme_re = None
    \<longleftrightarrow> (\<forall>k \<le> length n. match_at scheme_re (lastp None (take k n)) (drop k n) = None)"
    by (simp add: str_match_def exec_None)
  also have "\<dots> \<longleftrightarrow> match_at scheme_re None n = None"
  proof
    assume "\<forall>k \<le> length n. match_at scheme_re (lastp None (take k n)) (drop k n) = None"
    from this [rule_format, of 0] show "match_at scheme_re None n = None" by simp
  next
    assume z: "match_at scheme_re None n = None"
    show "\<forall>k \<le> length n. match_at scheme_re (lastp None (take k n)) (drop k n) = None"
    proof (intro allI impI)
      fix k assume "k \<le> length n"
      then show "match_at scheme_re (lastp None (take k n)) (drop k n) = None"
        using z later [of k] by (cases "k = 0") auto
    qed
  qed
  finally show ?thesis
    using first by simp
qed

lemma normalizeUrl_eq:
  "normalizeUrl inputUrl
   = (if has_http_scheme (trim inputUrl) then trim inputUrl else js ''https://'' @ trim inputUrl)"
  by (simp add: normalizeUrl_def Let_def scheme_match_None)

lemma normalize_example: "normalizeUrl (js ''example.com'') = js ''https://example.com''"
  by (simp add: normalizeUrl_def eval_defs re_defs)


lemma serve_invalid_url:
  assumes "req_method req \<noteq> js ''OPTIONS''"
    and "authorization req = Some authHeader" and "authHeader \<noteq> []"
    and "getUser E (replace_first authHeader (js ''Bearer '') []) = Some user0"
    and "body req = Body (Some url0)" and "url0 \<noteq> []"
    and "new_URL (URLs E) url0 = Inl e"
  shows "serve E req = ([], Failure (js ''Invalid URL format''))"
  using assms by (simp add: serve_def pipeline_def) (simp add: js_def)

text \<open>
  C8. \<open>normalizeUrl\<close> trims the input and, when the result does not start with
  \<^verbatim>\<open>http://\<close> or \<^verbatim>\<open>https://\<close> (in any case of the letters), puts \<^verbatim>\<open>https://\<close> before it;
  \<open>example.com\<close> becomes \<^verbatim>\<open>https://example.com\<close>. The form validates the normalised
  URL: for an input that is not blank it shows the validation error exactly when the
  normalised URL does not parse, a blank input (whose normalised form is the bare
  \<^verbatim>\<open>https://\<close>) is refused as well, and the form posts nothing but a normalised URL
  that parses. The handler answers a URL that does not parse with \<open>Invalid URL format\<close>
  and fetches nothing.
\<close>

theorem C8_normalize_then_validate:
  "normalizeUrl inputUrl
     = (if has_http_scheme (trim inputUrl) then trim inputUrl else js ''https://'' @ trim inputUrl)
   \<and> normalizeUrl (js ''example.com'') = js ''https://example.com''
   \<and> (trim inputUrl \<noteq> [] \<longrightarrow>
        (handleSubmit W session inputUrl
           = ShowError (js ''Please enter a valid URL (e.g., google.com, www.example.com, or https://example.com)'')
         \<longleftrightarrow> \<not> validateUrl W (normalizeUrl inputUrl)))
   \<and> (trim inputUrl = [] \<longrightarrow>
        normalizeUrl inputUrl = js ''https://''
        \<and> handleSubmit W session inputUrl = ShowError (js ''Please enter a URL''))
   \<and> (handleSubmit W session inputUrl = Post u
        \<longrightarrow> u = normalizeUrl inputUrl \<and> validateUrl W u)
   \<and> (req_method req \<noteq> js ''OPTIONS'' \<and> authorization req = Some authHeader
        \<and> authHeader \<noteq> []
        \<and> getUser E (replace_first authHeader (js ''Bearer '') []) = Some user0
        \<and> body req = Body (Some url0) \<and> url0 \<noteq> [] \<and> new_URL (URLs E) url0 = Inl e
        \<longrightarrow> serve E req = ([], Failure (js ''Invalid URL format'')))"
proof -
  have m: "js ''Not authenticated''
      \<noteq> js ''Please enter a valid URL (e.g., google.com, www.example.com, or https://example.com)''"
    by (simp add: js_def)
  have 3: "handleSubmit W session inputUrl
           = ShowError (js ''Please enter a valid URL (e.g., google.com, www.example.com, or https://example.com)'')
         \<longleftrightarrow> \<not> validateUrl W (normalizeUrl inputUrl)"
    if "trim inputUrl \<noteq> []"
    using that m by (auto simp: handleSubmit_def Let_def)
  have 4: "u = normalizeUrl inputUrl \<and> validateUrl W u"
    if "handleSubmit W session inputUrl = Post u"
    using that by (auto simp: handleSubmit_def Let_def split: if_splits)
  have 5: "normalizeUrl inputUrl = js ''https://''
        \<and> handleSubmit W session inputUrl = ShowError (js ''Please enter a URL'')"
    if "trim inputUrl = []"
    using that normalizeUrl_eq [of inputUrl]
    by (simp add: handleSubmit_def has_http_scheme_def eq_i_def js_def)
  from 3 4 5 normalizeUrl_eq [of inputUrl] normalize_example
    serve_invalid_url [of req authHeader E user0 url0 e]
  show ?thesis
    by blast
qed

theorem C8_normalize_then_validate_witness:
  "normalizeUrl (js '' site.test/page '') = js ''https://site.test/page''
   \<and> handleSubmit site_test_platform True (js '' site.test/page '') = Post (js ''https://site.test/page'')
   \<and> validateUrl site_test_platform (js ''https://site.test/page'')
   \<and> \<not> validateUrl site_test_platform (normalizeUrl (js ''site test''))
   \<and> handleSubmit site_test_platform True (js ''site test'')
       = ShowError (js ''Please enter a valid URL (e.g., google.com, www.example.com, or https://example.com)'')
   \<and> serve (example_world scenario_page None (Inl (Error [])) store_ok)
         \<lparr>req_method = js ''POST'', authorization = Some (js ''Bearer token''),
          body = Body (Some (js ''site test''))\<rparr>
       = ([], Failure (js ''Invalid URL format''))"
proof -
  let ?E = "example_world scenario_page None (Inl (Error [])) store_ok"
  let ?req = "\<lparr>req_method = js ''POST'', authorization = Some (js ''Bearer token''),
          body = Body (Some (js ''site test''))\<rparr>"
  note a = C8_normalize_then_validate [of "js '' site.test/page ''" site_test_platform True
      "js ''https://site.test/page''" ?req "js ''Bearer token''" ?E "\<lparr>user_id = js ''u1''\<rparr>"
      "js ''site test''" "TypeError (js ''Invalid URL'')"]
  note b = C8_normalize_then_validate [of "js ''site test''" site_test_platform True
      "js ''https://site.test/page''" ?req "js ''Bearer token''" ?E "\<lparr>user_id = js ''u1''\<rparr>"
      "js ''site test''" "TypeError (js ''Invalid URL'')"]
  have t1: "trim (js '' site.test/page '') = js ''site.test/page''"
    by (simp add: trim_def js_def is_space_def)
  have n1: "\<not> has_http_scheme (js ''site.test/page'')"
    unfolding scheme_match_None [symmetric] by (simp add: eval_defs re_defs)
  from a t1 n1 have 1: "normalizeUrl (js '' site.test/page '') = js ''https://site.test/page''"
    by (simp add: js_def)
  have v: "validateUrl site_test_platform (js ''https://site.test/page'')"
    by (simp add: validateUrl_def site_test_platform_def)
  have p: "handleSubmit site_test_platform True (js '' site.test/page '')
      = Post (js ''https://site.test/page'')"
    using 1 v t1 by (simp add: handleSubmit_def Let_def) (simp add: js_def)
  have t2: "trim (js ''site test'') \<noteq> []"
    by (simp add: trim_def js_def is_space_def)
  have n2: "\<not> validateUrl site_test_platform (normalizeUrl (js ''site test''))"
    by (simp add: validateUrl_def site_test_platform_def normalizeUrl_def eval_defs re_defs)
  from b t2 n2 have 2: "handleSubmit site_test_platform True (js ''site test'')
       = ShowError (js ''Please enter a valid URL (e.g., google.com, www.example.com, or https://example.com)'')"
    by blast
  have h: "req_method ?req \<noteq> js ''OPTIONS'' \<and> authorization ?req = Some (js ''Bearer token'')
        \<and> js ''Bearer token'' \<noteq> []
        \<and> getUser ?E (replace_first (js ''Bearer token'') (js ''Bearer '') []) = Some \<lparr>user_id = js ''u1''\<rparr>
        \<and> body ?req = Body (Some (js ''site test'')) \<and> js ''site test'' \<noteq> []
        \<and> new_URL (URLs ?E) (js ''site test'') = Inl (TypeError (js ''Invalid URL''))"
    by (simp add: example_world_def site_test_platform_def js_def startsWith_def)
  with a have 3: "serve ?E ?req = ([], Failure (js ''Invalid URL format''))"
    by blast
  from 1 p v n2 2 3 show ?thesis
    by blast
qed

end
